theory Spec2Isabelle
  imports Main "HOL-Library.Word" "HOL-Library.Signed_Division"
begin

section \<open>The registration table of signal.c\<close>

text \<open>
  The model follows \<^verbatim>\<open>src/signal.c\<close> function by function. C \<^verbatim>\<open>int\<close>s that are only
  stored and compared (signal numbers, file descriptors, return codes, the timeout) are
  \<open>int\<close>; the delivery counter, which is incremented without bound, is a \<open>32 word\<close> so
  that its wrap-around is part of the model.

  Every call into the platform is a parameter of the model: the outcome of
  \<^verbatim>\<open>pthread_mutex_lock\<close>, of each \<^verbatim>\<open>pipe\<close> and of each \<^verbatim>\<open>select\<close> is supplied by
  the caller of the model, and \<^verbatim>\<open>signal\<close> is answered from the table of dispositions
  held in the state. Each platform call is appended to a trace, so that the order of the
  calls one thread makes can be stated.

  The handler may interrupt \<^verbatim>\<open>install\<close> before, between and after its two atomic
  stores: the stores are a sequence of steps (\<open>install_stores\<close>) and \<open>interrupted\<close> runs
  a handler between any two of them.

  What the model leaves out: the interleaving of several threads, and of the handler with
  a running call at any other point (elsewhere each function runs from start to end);
  the effect on \<^verbatim>\<open>errno\<close> of \<^verbatim>\<open>read\<close>, \<^verbatim>\<open>write\<close> and \<^verbatim>\<open>close\<close>, whose results the
  source ignores; the bound \<^verbatim>\<open>FD_SETSIZE\<close> of an \<^verbatim>\<open>fd_set\<close>.
\<close>

subsection \<open>Handler values and slots\<close>

text \<open>
  A value of type \<^verbatim>\<open>mph_sighandler_t\<close> other than \<^verbatim>\<open>SIG_ERR\<close>: the address of
  \<^verbatim>\<open>default_handler\<close>, or any other pointer value \<open>Fn n\<close> (\<open>Fn 0\<close> is the null
  pointer). \<^verbatim>\<open>SIG_ERR\<close> only ever appears as the failure result of \<^verbatim>\<open>signal\<close> and is
  the \<open>None\<close> of \<open>os_signal\<close> below.
\<close>

datatype sighandler = DefaultHandler | Fn nat

abbreviation NULL_handler :: sighandler where
  "NULL_handler \<equiv> Fn 0"

text \<open>
  \<^verbatim>\<open>struct Mono_Unix_UnixSignal_SignalInfo\<close> is declared in \<^verbatim>\<open>map.h\<close>; its fields are
  the ones signal.c reads and writes.
\<close>

record signal_info =
  signum :: int
  count :: "32 word"
  read_fd :: int
  write_fd :: int
  have_handler :: int
  handler :: sighandler

definition NUM_SIGNALS :: nat where
  "NUM_SIGNALS = 64"

text \<open>
  A \<^verbatim>\<open>signal_info*\<close> is the null pointer or \<^verbatim>\<open>signals + k\<close> for an integer offset
  \<open>k\<close> counted in slots (a pointer into the middle of a slot is not represented);
  \<open>Slot k\<close> points into the table exactly when \<open>0 \<le> k < NUM_SIGNALS\<close>, and
  \<open>Slot (int NUM_SIGNALS)\<close> is \<^verbatim>\<open>&signals [NUM_SIGNALS]\<close>, one past the end.
  Dereferencing a pointer that does not point into the table is undefined in C and is
  the \<open>BadPointer\<close> fault of the model. The other fault, \<open>SelectSpins\<close>, says that the
  \<^verbatim>\<open>select\<close> loop of \<^verbatim>\<open>wait_for_any\<close> has not returned within the answers given.
\<close>

datatype ptr = NULL | Slot int

fun deref :: "ptr \<Rightarrow> nat option" where
  "deref NULL = None"
| "deref (Slot k) = (if 0 \<le> k \<and> k < int NUM_SIGNALS then Some (nat k) else None)"

datatype fault = BadPointer | SelectSpins

subsection \<open>The platform\<close>

datatype event =
    MutexLock
  | MutexUnlock
  | Signal int sighandler
  | Pipe
  | Select int "int set" "(int \<times> int) option"
  | Read int
  | Write int "8 word"
  | Close int

text \<open>
  \<open>signals\<close> is the static array \<^verbatim>\<open>signals [NUM_SIGNALS]\<close>, indexed by slot; only
  indices below \<open>NUM_SIGNALS\<close> exist and the model reads and writes no other.
  \<open>disposition\<close> is the platform's handler for each signal number and \<open>catchable\<close> says
  for which signal numbers \<^verbatim>\<open>signal\<close> succeeds. \<open>nonblock\<close> is the set of file
  descriptors whose \<^verbatim>\<open>O_NONBLOCK\<close> flag is set: a \<^verbatim>\<open>read\<close> or \<^verbatim>\<open>write\<close> on a
  descriptor outside this set is a blocking call.
\<close>

record state =
  signals :: "nat \<Rightarrow> signal_info"
  disposition :: "int \<Rightarrow> sighandler"
  catchable :: "int \<Rightarrow> bool"
  errno :: int
  trace :: "event list"
  nonblock :: "int set"

definition EINTR :: int where
  "EINTR = 4"

definition EINVAL :: int where
  "EINVAL = 22"

definition log_event :: "event \<Rightarrow> state \<Rightarrow> state" where
  "log_event e st = st\<lparr>trace := trace st @ [e]\<rparr>"

definition upd_slot :: "nat \<Rightarrow> (signal_info \<Rightarrow> signal_info) \<Rightarrow> state \<Rightarrow> state" where
  "upd_slot i f st = st\<lparr>signals := (signals st)(i := f (signals st i))\<rparr>"

text \<open>
  \<^verbatim>\<open>signal (sig, hdl)\<close>: on success the previous disposition is returned and \<open>hdl\<close>
  installed; on failure the result is \<^verbatim>\<open>SIG_ERR\<close> (\<open>None\<close>) and \<^verbatim>\<open>errno\<close> is
  \<^verbatim>\<open>EINVAL\<close>.
\<close>

definition os_signal :: "int \<Rightarrow> sighandler \<Rightarrow> state \<Rightarrow> sighandler option \<times> state" where
  "os_signal sig hdl st =
     (let st1 = log_event (Signal sig hdl) st in
      if catchable st sig
      then (Some (disposition st sig), st1\<lparr>disposition := (disposition st)(sig := hdl)\<rparr>)
      else (None, st1\<lparr>errno := EINVAL\<rparr>))"

subsection \<open>default_handler\<close>

text \<open>
  The loop of \<^verbatim>\<open>default_handler\<close> from slot \<open>i\<close> on. The result of \<^verbatim>\<open>write\<close> is
  ignored by the source; the byte written is \<^verbatim>\<open>(char) signum\<close>.
\<close>

function default_handler_from :: "nat \<Rightarrow> int \<Rightarrow> state \<Rightarrow> state" where
  "default_handler_from i sig st =
     (if i < NUM_SIGNALS then
        (if signum (signals st i) \<noteq> sig then default_handler_from (Suc i) sig st
         else
           let st1 = upd_slot i (\<lambda>s. s\<lparr>count := count s + 1\<rparr>) st;
               fd = write_fd (signals st1 i);
               st2 = (if fd > 0 then log_event (Write fd (of_int sig)) st1 else st1)
           in default_handler_from (Suc i) sig st2)
      else st)"
  by pat_completeness auto
termination
  by (relation "measure (\<lambda>(i, sig, st). NUM_SIGNALS - i)") auto

definition default_handler :: "int \<Rightarrow> state \<Rightarrow> state" where
  "default_handler sig st = default_handler_from 0 sig st"

text \<open>\<open>n\<close> deliveries of the same signal, one after the other.\<close>

fun deliver :: "nat \<Rightarrow> int \<Rightarrow> state \<Rightarrow> state" where
  "deliver 0 sig st = st"
| "deliver (Suc n) sig st = deliver n sig (default_handler sig st)"

subsection \<open>install\<close>

text \<open>
  The locals of \<^verbatim>\<open>Mono_Unix_UnixSignal_install\<close>: \<open>h_slot\<close> is the slot \<^verbatim>\<open>h\<close> points to
  (\<open>None\<close> for the null pointer); \<open>found\<close> holds the pair of locals
  \<^verbatim>\<open>have_handler\<close> and \<^verbatim>\<open>handler\<close>: \<open>None\<close> while \<^verbatim>\<open>have_handler\<close> is 0 (and
  \<^verbatim>\<open>handler\<close> is not yet assigned), \<open>Some p\<close> once it is 1 and \<^verbatim>\<open>handler\<close> is
  \<open>p\<close>.
\<close>

record install_locals =
  h_slot :: "nat option"
  found :: "sighandler option"

text \<open>
  One pass of the \<^verbatim>\<open>for\<close> loop of install at index \<open>i\<close>. The first component of the
  result says whether the pass left the loop by \<^verbatim>\<open>break\<close>.
\<close>

definition install_pass ::
  "nat \<Rightarrow> int \<Rightarrow> install_locals \<Rightarrow> state \<Rightarrow> bool \<times> install_locals \<times> state" where
  "install_pass i sig l st =
     (let (failed, l1, st1) =
        (if h_slot l = None \<and> signum (signals st i) = 0 then
           (case os_signal sig DefaultHandler st of
              (None, st') \<Rightarrow>
                (True, l\<lparr>h_slot := None\<rparr>, upd_slot i (\<lambda>s. s\<lparr>handler := NULL_handler\<rparr>) st')
            | (Some p, st') \<Rightarrow>
                (False, l\<lparr>h_slot := Some i\<rparr>,
                 upd_slot i (\<lambda>s. s\<lparr>handler := p, have_handler := 1\<rparr>) st'))
         else (False, l, st))
      in if failed then (True, l1, st1)
         else
           let l2 = (if found l1 = None \<and> signum (signals st1 i) = sig \<and>
                        handler (signals st1 i) \<noteq> DefaultHandler
                     then l1\<lparr>found := Some (handler (signals st1 i))\<rparr> else l1)
           in (h_slot l2 \<noteq> None \<and> found l2 \<noteq> None, l2, st1))"

function install_loop :: "nat \<Rightarrow> int \<Rightarrow> install_locals \<Rightarrow> state \<Rightarrow> install_locals \<times> state" where
  "install_loop i sig l st =
     (if i < NUM_SIGNALS then
        (case install_pass i sig l st of
           (True, l', st') \<Rightarrow> (l', st')
         | (False, l', st') \<Rightarrow> install_loop (Suc i) sig l' st')
      else (l, st))"
  by pat_completeness auto
termination
  by (relation "measure (\<lambda>(i, sig, l, st). NUM_SIGNALS - i)") auto

text \<open>
  Lines 103 to 128: the loop, then the copy of the disposition found in another slot.
\<close>

definition install_alloc :: "int \<Rightarrow> state \<Rightarrow> nat option \<times> state" where
  "install_alloc sig st =
     (let (l, st1) = install_loop 0 sig \<lparr>h_slot = None, found = None\<rparr> st
      in (case (h_slot l, found l) of
            (Some k, Some p) \<Rightarrow>
              (Some k, upd_slot k (\<lambda>s. s\<lparr>have_handler := 1, handler := p\<rparr>) st1)
          | _ \<Rightarrow> (h_slot l, st1)))"

text \<open>
  Lines 131 and 132: the two atomic stores \<^verbatim>\<open>g_atomic_int_set (&h->count, 0)\<close> and
  \<^verbatim>\<open>g_atomic_int_set (&h->signum, sig)\<close>. \<open>install_stores\<close> is the sequence of the two,
  in the order of the source, and \<open>run_steps\<close> runs a sequence of steps from first to
  last.
\<close>

definition reset_count :: "nat \<Rightarrow> state \<Rightarrow> state" where
  "reset_count k st = upd_slot k (\<lambda>s. s\<lparr>count := 0\<rparr>) st"

definition publish_signum :: "nat \<Rightarrow> int \<Rightarrow> state \<Rightarrow> state" where
  "publish_signum k sig st = upd_slot k (\<lambda>s. s\<lparr>signum := sig\<rparr>) st"

definition install_stores :: "nat \<Rightarrow> int \<Rightarrow> (state \<Rightarrow> state) list" where
  "install_stores k sig = [reset_count k, publish_signum k sig]"

definition run_steps :: "(state \<Rightarrow> state) list \<Rightarrow> state \<Rightarrow> state" where
  "run_steps steps st = fold (\<lambda>step s. step s) steps st"

text \<open>
  The handler runs on whichever thread the signal is delivered to, so it can run between
  any two steps of a thread that is inside install. \<open>interrupted j irq steps\<close> runs the
  first \<open>j\<close> steps, then the interrupting code \<open>irq\<close>, then the remaining steps.
\<close>

definition interrupted ::
  "nat \<Rightarrow> (state \<Rightarrow> state) \<Rightarrow> (state \<Rightarrow> state) list \<Rightarrow> state \<Rightarrow> state" where
  "interrupted j irq steps st = run_steps (drop j steps) (irq (run_steps (take j steps) st))"

text \<open>
  \<open>mr\<close> is the result of \<^verbatim>\<open>pthread_mutex_lock\<close>. The function returns the handle and
  the new state.
\<close>

definition Mono_Unix_UnixSignal_install :: "int \<Rightarrow> int \<Rightarrow> state \<Rightarrow> ptr \<times> state" where
  "Mono_Unix_UnixSignal_install mr sig st =
     (if mr \<noteq> 0 then (NULL, st\<lparr>errno := mr\<rparr>)
      else
        (case install_alloc sig (log_event MutexLock st) of
           (Some k, st1) \<Rightarrow>
             (Slot (int k), log_event MutexUnlock (run_steps (install_stores k sig) st1))
         | (None, st1) \<Rightarrow> (NULL, log_event MutexUnlock st1)))"

subsection \<open>uninstall\<close>

function count_handlers_from :: "nat \<Rightarrow> int \<Rightarrow> int \<Rightarrow> state \<Rightarrow> int" where
  "count_handlers_from i sig c st =
     (if i < NUM_SIGNALS then
        count_handlers_from (Suc i) sig (if signum (signals st i) = sig then c + 1 else c) st
      else c)"
  by pat_completeness auto
termination
  by (relation "measure (\<lambda>(i, sig, c, st). NUM_SIGNALS - i)") auto

definition count_handlers :: "int \<Rightarrow> state \<Rightarrow> int" where
  "count_handlers sig st = count_handlers_from 0 sig 0 st"

text \<open>
  The pointer test of line 166 on offsets:
  \<^verbatim>\<open>h == NULL || h < signals || h > &signals [NUM_SIGNALS]\<close>.
\<close>

fun handle_rejected :: "ptr \<Rightarrow> bool" where
  "handle_rejected NULL = True"
| "handle_rejected (Slot k) = (k < 0 \<or> k > int NUM_SIGNALS)"

text \<open>The \<^verbatim>\<open>else\<close> branch, lines 169 to 177, on a slot of the table.\<close>

definition uninstall_slot :: "nat \<Rightarrow> state \<Rightarrow> int \<times> state" where
  "uninstall_slot k st =
     (let (r, st1) =
        (if have_handler (signals st k) \<noteq> 0 \<and> count_handlers (signum (signals st k)) st = 1
         then
           (case os_signal (signum (signals st k)) (handler (signals st k)) st of
              (p, st') \<Rightarrow>
                (if p \<noteq> None then 0 else -1,
                 upd_slot k (\<lambda>s. s\<lparr>handler := NULL_handler, have_handler := 0\<rparr>) st'))
         else (-1, st))
      in (r, upd_slot k (\<lambda>s. s\<lparr>signum := 0\<rparr>) st1))"

definition Mono_Unix_UnixSignal_uninstall :: "int \<Rightarrow> ptr \<Rightarrow> state \<Rightarrow> fault + int \<times> state" where
  "Mono_Unix_UnixSignal_uninstall mr info st =
     (if mr \<noteq> 0 then Inr (-1, st\<lparr>errno := mr\<rparr>)
      else
        let st0 = log_event MutexLock st in
        if handle_rejected info then Inr (-1, log_event MutexUnlock (st0\<lparr>errno := EINVAL\<rparr>))
        else
          (case deref info of
             None \<Rightarrow> Inl BadPointer
           | Some k \<Rightarrow>
               (case uninstall_slot k st0 of
                  (r, st1) \<Rightarrow> Inr (r, log_event MutexUnlock st1))))"

subsection \<open>WaitAny\<close>

text \<open>
  The answers of the platform during one call of WaitAny. \<^verbatim>\<open>pipe\<close> returns 0 and two
  descriptors, or -1 with an error number. \<^verbatim>\<open>select\<close> returns -1 with an error
  number and leaves the descriptor set as it was, or returns \<open>n \<ge> 0\<close> and overwrites
  the set with the descriptors that are ready. An \<^verbatim>\<open>fd_set\<close> is a set of
  descriptors.
\<close>

datatype pipe_reply = PipeOk int int | PipeFails int

datatype select_reply = SelectFails int | SelectReturns nat "int set"

text \<open>
  \<open>lock_result\<close> is the result of \<^verbatim>\<open>pthread_mutex_lock\<close>, \<open>pipes i\<close> the answer to the
  \<open>i\<close>-th call of \<^verbatim>\<open>pipe\<close>, \<open>selects\<close> the answers to the successive calls of
  \<^verbatim>\<open>select\<close>. \<open>r_uninit\<close> is the value the local \<^verbatim>\<open>r\<close> of \<^verbatim>\<open>setup_pipes\<close>
  holds before its first assignment: the source declares it without an initialiser and
  returns it unassigned when \<^verbatim>\<open>count\<close> is 0.
\<close>

record wait_env =
  lock_result :: int
  r_uninit :: int
  pipes :: "nat \<Rightarrow> pipe_reply"
  selects :: "select_reply list"

text \<open>
  A successful \<^verbatim>\<open>pipe (filedes)\<close>: the two new descriptors have \<^verbatim>\<open>O_NONBLOCK\<close>
  clear, as POSIX specifies for \<^verbatim>\<open>pipe\<close>. No other call of the source changes the
  flags of a descriptor.
\<close>

definition os_pipe :: "int \<Rightarrow> int \<Rightarrow> state \<Rightarrow> state" where
  "os_pipe rfd wfd st = (log_event Pipe st)\<lparr>nonblock := nonblock st - {rfd, wfd}\<rparr>"

text \<open>
  \<^verbatim>\<open>setup_pipes\<close>: the loop over the handles that remain, \<open>i\<close> being the index of the
  first of them. The result is \<^verbatim>\<open>r\<close>, \<^verbatim>\<open>*read_fds\<close> and \<^verbatim>\<open>*max_fd\<close>.
\<close>

fun setup_pipes_from ::
  "(nat \<Rightarrow> pipe_reply) \<Rightarrow> nat \<Rightarrow> ptr list \<Rightarrow> int \<Rightarrow> int set \<Rightarrow> int \<Rightarrow> state
    \<Rightarrow> fault + int \<times> int set \<times> int \<times> state" where
  "setup_pipes_from pp i [] r fds max_fd st = Inr (r, fds, max_fd, st)"
| "setup_pipes_from pp i (p # ps) r fds max_fd st =
     (case pp i of
        PipeFails e \<Rightarrow> Inr (-1, fds, max_fd, (log_event Pipe st)\<lparr>errno := e\<rparr>)
      | PipeOk rfd wfd \<Rightarrow>
          (case deref p of
             None \<Rightarrow> Inl BadPointer
           | Some k \<Rightarrow>
               setup_pipes_from pp (Suc i) ps 0 (insert rfd fds)
                 (if rfd > max_fd then rfd else max_fd)
                 (upd_slot k (\<lambda>s. s\<lparr>read_fd := rfd, write_fd := wfd\<rparr>) (os_pipe rfd wfd st))))"

definition setup_pipes ::
  "wait_env \<Rightarrow> ptr list \<Rightarrow> int set \<Rightarrow> int \<Rightarrow> state \<Rightarrow> fault + int \<times> int set \<times> int \<times> state" where
  "setup_pipes env sigs fds max_fd st =
     setup_pipes_from (pipes env) 0 sigs (r_uninit env) fds max_fd st"

fun teardown_pipes :: "ptr list \<Rightarrow> state \<Rightarrow> fault + state" where
  "teardown_pipes [] st = Inr st"
| "teardown_pipes (p # ps) st =
     (case deref p of
        None \<Rightarrow> Inl BadPointer
      | Some k \<Rightarrow>
          let st1 = (if read_fd (signals st k) \<noteq> 0
                     then log_event (Close (read_fd (signals st k))) st else st);
              st2 = (if write_fd (signals st1 k) \<noteq> 0
                     then log_event (Close (write_fd (signals st1 k))) st1 else st1)
          in teardown_pipes ps (upd_slot k (\<lambda>s. s\<lparr>read_fd := 0, write_fd := 0\<rparr>) st2))"

definition os_select :: "select_reply \<Rightarrow> int set \<Rightarrow> state \<Rightarrow> int \<times> int set \<times> state" where
  "os_select rep fds st =
     (case rep of
        SelectFails e \<Rightarrow> (-1, fds, st\<lparr>errno := e\<rparr>)
      | SelectReturns n ready \<Rightarrow> (int n, ready, st))"

text \<open>
  The \<^verbatim>\<open>do ... while (r == -1 && errno == EINTR)\<close> loop of \<^verbatim>\<open>wait_for_any\<close>. The
  loop runs for as long as the platform answers \<^verbatim>\<open>EINTR\<close>; the list of answers is its
  fuel, and \<open>None\<close> says that every answer given was \<^verbatim>\<open>EINTR\<close>, so that the loop has
  not returned yet. The C division and remainder truncate towards zero.
\<close>

fun select_loop ::
  "select_reply list \<Rightarrow> int \<Rightarrow> int set \<Rightarrow> int \<Rightarrow> state \<Rightarrow> (int \<times> int set \<times> state) option" where
  "select_loop [] max_fd fds timeout st = None"
| "select_loop (rep # reps) max_fd fds timeout st =
     (let ptv = (if timeout \<noteq> -1
                 then Some (timeout sdiv 1000, (timeout smod 1000) * 1000) else None)
      in (case os_select rep fds (log_event (Select (max_fd + 1) fds ptv) st) of
            (r, fds', st') \<Rightarrow>
              if r = -1 \<and> errno st' = EINTR then select_loop reps max_fd fds' timeout st'
              else Some (r, fds', st')))"

text \<open>
  The scan of lines 242 to 250 over the handles that remain, \<open>i\<close> being the index of the
  first of them. The result of \<^verbatim>\<open>read\<close> is ignored by the source.
\<close>

fun scan_ready :: "nat \<Rightarrow> ptr list \<Rightarrow> int set \<Rightarrow> int \<Rightarrow> state \<Rightarrow> fault + int \<times> state" where
  "scan_ready i [] fds idx st = Inr (idx, st)"
| "scan_ready i (p # ps) fds idx st =
     (case deref p of
        None \<Rightarrow> Inl BadPointer
      | Some k \<Rightarrow>
          if read_fd (signals st k) \<in> fds
          then scan_ready (Suc i) ps fds (if idx = -1 then int i else idx)
                 (log_event (Read (read_fd (signals st k))) st)
          else scan_ready (Suc i) ps fds idx st)"

definition wait_for_any ::
  "select_reply list \<Rightarrow> ptr list \<Rightarrow> int \<Rightarrow> int set \<Rightarrow> int \<Rightarrow> state \<Rightarrow> fault + int \<times> state" where
  "wait_for_any reps sigs max_fd fds timeout st =
     (case select_loop reps max_fd fds timeout st of
        None \<Rightarrow> Inl SelectSpins
      | Some (r, fds', st') \<Rightarrow>
          if r = 0 then Inr (timeout, st')
          else if r > 0 then scan_ready 0 sigs fds' (-1) st'
          else Inr (-1, st'))"

text \<open>
  The handles are the list \<open>sigs\<close>, \<^verbatim>\<open>count\<close> its length. The result is the value
  returned and the new state, or a fault.
\<close>

definition Mono_Unix_UnixSignal_WaitAny ::
  "wait_env \<Rightarrow> ptr list \<Rightarrow> int \<Rightarrow> state \<Rightarrow> fault + int \<times> state" where
  "Mono_Unix_UnixSignal_WaitAny env sigs timeout st =
     (if lock_result env \<noteq> 0 then Inr (-1, st\<lparr>errno := lock_result env\<rparr>)
      else
        (case setup_pipes env sigs {} 0 (log_event MutexLock st) of
           Inl f \<Rightarrow> Inl f
         | Inr (r, fds, max_fd, st1) \<Rightarrow>
             (case (if r = 0 then wait_for_any (selects env) sigs max_fd fds timeout st1
                    else Inr (r, st1)) of
                Inl f \<Rightarrow> Inl f
              | Inr (r', st2) \<Rightarrow>
                  (case teardown_pipes sigs st2 of
                     Inl f \<Rightarrow> Inl f
                   | Inr st3 \<Rightarrow> Inr (r', log_event MutexUnlock st3)))))"

text \<open>The state before any call: every slot zero, as a static array is.\<close>

definition zero_info :: signal_info where
  "zero_info = \<lparr>signum = 0, count = 0, read_fd = 0, write_fd = 0, have_handler = 0,
                 handler = NULL_handler\<rparr>"

definition initial_state :: "(int \<Rightarrow> sighandler) \<Rightarrow> (int \<Rightarrow> bool) \<Rightarrow> state" where
  "initial_state d c =
     \<lparr>signals = (\<lambda>i. zero_info), disposition = d, catchable = c, errno = 0, trace = [],
      nonblock = {}\<rparr>"

text \<open>
  Two states used to run the model: a table whose slot 0 holds a registration for signal
  10 with no wait in progress, and the same table during a wait, slot 0 bound to the
  pipe with descriptors 3 and 4. Every signal but 9 and 19 can be caught, and every
  disposition is the null pointer before the table installs anything.
\<close>

definition catchable_std :: "int \<Rightarrow> bool" where
  "catchable_std sig = (1 \<le> sig \<and> sig \<le> 64 \<and> sig \<noteq> 9 \<and> sig \<noteq> 19)"

definition fresh_state :: state where
  "fresh_state = initial_state (\<lambda>sig. NULL_handler) catchable_std"

definition registered_state :: state where
  "registered_state =
     upd_slot 0 (\<lambda>s. s\<lparr>signum := 10, have_handler := 1\<rparr>)
       (fresh_state\<lparr>disposition := (disposition fresh_state)(10 := DefaultHandler)\<rparr>)"

definition armed_state :: state where
  "armed_state = upd_slot 0 (\<lambda>s. s\<lparr>read_fd := 3, write_fd := 4\<rparr>) registered_state"

text \<open>The table with a second registration of signal 10, in slot 1.\<close>

definition shared_state :: state where
  "shared_state = upd_slot 1 (\<lambda>s. s\<lparr>signum := 10, have_handler := 1\<rparr>) registered_state"

text \<open>A free slot that still carries the counter of an earlier registration.\<close>

definition stale_state :: state where
  "stale_state = upd_slot 0 (\<lambda>s. s\<lparr>count := 5, have_handler := 1\<rparr>) fresh_state"

subsection \<open>What the loop of install computes\<close>

text \<open>
  Used to state the result of the loop: the first free slot of the table, the first slot
  that holds the signal with a recorded handler other than \<^verbatim>\<open>default_handler\<close>, and
  the state after \<^verbatim>\<open>signal\<close> succeeded and its result was stored in slot \<open>k\<close>.
\<close>

definition is_match :: "int \<Rightarrow> state \<Rightarrow> nat \<Rightarrow> bool" where
  "is_match sig st j = (signum (signals st j) = sig \<and> handler (signals st j) \<noteq> DefaultHandler)"

definition claimed :: "int \<Rightarrow> nat \<Rightarrow> state \<Rightarrow> state" where
  "claimed sig k st =
     upd_slot k (\<lambda>s. s\<lparr>handler := disposition st sig, have_handler := 1\<rparr>)
       ((log_event (Signal sig DefaultHandler) st)
          \<lparr>disposition := (disposition st)(sig := DefaultHandler)\<rparr>)"

definition first_free :: "state \<Rightarrow> nat option" where
  "first_free st = find (\<lambda>j. signum (signals st j) = 0) [0..<NUM_SIGNALS]"

definition first_match :: "int \<Rightarrow> state \<Rightarrow> nat option" where
  "first_match sig st = find (is_match sig st) [0..<NUM_SIGNALS]"

subsection \<open>Traces of WaitAny\<close>

text \<open>
  Used to state what a call of WaitAny does: a list of events without lock or unlock, a
  list of events with a call of \<^verbatim>\<open>select\<close>, the read descriptor of the slot a handle
  points to, and the event of one call of \<^verbatim>\<open>select\<close> in \<^verbatim>\<open>wait_for_any\<close>.
\<close>

definition quiet :: "event list \<Rightarrow> bool" where
  "quiet es = (MutexLock \<notin> set es \<and> MutexUnlock \<notin> set es)"

definition has_select :: "event list \<Rightarrow> bool" where
  "has_select es = (\<exists>n f tv. Select n f tv \<in> set es)"

definition read_fd_of :: "state \<Rightarrow> ptr \<Rightarrow> int" where
  "read_fd_of st p = (case deref p of Some k \<Rightarrow> read_fd (signals st k) | None \<Rightarrow> 0)"

text \<open>
  \<open>armed_fd f i ps q d\<close> is the descriptor that \<^verbatim>\<open>setup_pipes\<close>, run over the handles
  \<open>ps\<close> with \<open>f i\<close>, \<open>f (i + 1)\<close>, ... the descriptors of the successive pipes,
  leaves in the slot handle \<open>q\<close> points to, \<open>d\<close> being what the slot held before:
  every occurrence of \<open>q\<close> overwrites the one before. \<open>fd_at f sigs i\<close> is that
  descriptor for the \<open>i\<close>-th handle of \<open>sigs\<close>.
\<close>

fun armed_fd :: "(nat \<Rightarrow> int) \<Rightarrow> nat \<Rightarrow> ptr list \<Rightarrow> ptr \<Rightarrow> int \<Rightarrow> int" where
  "armed_fd f i [] q d = d"
| "armed_fd f i (p # ps) q d = armed_fd f (Suc i) ps q (if p = q then f i else d)"

definition fd_at :: "(nat \<Rightarrow> int) \<Rightarrow> ptr list \<Rightarrow> nat \<Rightarrow> int" where
  "fd_at f sigs i = armed_fd f 0 sigs (sigs ! i) 0"

definition select_event :: "int \<Rightarrow> int set \<Rightarrow> int \<Rightarrow> event" where
  "select_event max_fd fds timeout =
     Select (max_fd + 1) fds
       (if timeout \<noteq> -1 then Some (timeout sdiv 1000, (timeout smod 1000) * 1000) else None)"

section \<open>Basic facts\<close>

lemma upd_slot_simps [simp]:
  "signals (upd_slot i f st) = (signals st)(i := f (signals st i))"
  "trace (upd_slot i f st) = trace st"
  "errno (upd_slot i f st) = errno st"
  "disposition (upd_slot i f st) = disposition st"
  "catchable (upd_slot i f st) = catchable st"
  "nonblock (upd_slot i f st) = nonblock st"
  by (simp_all add: upd_slot_def)

lemma log_event_simps [simp]:
  "signals (log_event e st) = signals st"
  "trace (log_event e st) = trace st @ [e]"
  "errno (log_event e st) = errno st"
  "disposition (log_event e st) = disposition st"
  "catchable (log_event e st) = catchable st"
  "nonblock (log_event e st) = nonblock st"
  by (simp_all add: log_event_def)

lemma os_pipe_simps [simp]:
  "signals (os_pipe rfd wfd st) = signals st"
  "trace (os_pipe rfd wfd st) = trace st @ [Pipe]"
  "errno (os_pipe rfd wfd st) = errno st"
  "disposition (os_pipe rfd wfd st) = disposition st"
  "catchable (os_pipe rfd wfd st) = catchable st"
  "nonblock (os_pipe rfd wfd st) = nonblock st - {rfd, wfd}"
  by (simp_all add: os_pipe_def)

lemma run_install_stores [simp]:
  "run_steps (install_stores k sig) st = publish_signum k sig (reset_count k st)"
  by (simp add: run_steps_def install_stores_def)

lemma fresh_simps:
  "signals fresh_state j = zero_info"
  "catchable fresh_state = catchable_std"
  "errno fresh_state = 0"
  "trace fresh_state = []"
  "disposition fresh_state = (\<lambda>sig. NULL_handler)"
  by (simp_all add: fresh_state_def initial_state_def)

lemma registered_simps:
  "signals registered_state j = (if j = 0 then zero_info\<lparr>signum := 10, have_handler := 1\<rparr> else zero_info)"
  "catchable registered_state = catchable_std"
  "errno registered_state = 0"
  "trace registered_state = []"
  "disposition registered_state = (\<lambda>sig. NULL_handler)(10 := DefaultHandler)"
  by (simp_all add: registered_state_def fresh_state_def initial_state_def)

lemma shared_simps:
  "signals shared_state j =
     (if j = 0 \<or> j = 1 then zero_info\<lparr>signum := 10, have_handler := 1\<rparr> else zero_info)"
  "catchable shared_state = catchable_std"
  "errno shared_state = 0"
  "trace shared_state = []"
  "disposition shared_state = (\<lambda>sig. NULL_handler)(10 := DefaultHandler)"
  by (simp_all add: shared_state_def registered_simps)

lemma armed_simps:
  "signals armed_state j =
     (if j = 0 then zero_info\<lparr>signum := 10, have_handler := 1, read_fd := 3, write_fd := 4\<rparr>
      else zero_info)"
  "trace armed_state = []"
  by (simp_all add: armed_state_def registered_simps)

lemma armed_writes:
  "filter (\<lambda>i. signum (signals armed_state i) = 10 \<and> write_fd (signals armed_state i) > 0)
     [0..<NUM_SIGNALS] = [0]"
proof -
  have "[0..<NUM_SIGNALS] = 0 # [1..<NUM_SIGNALS]"
    by (simp add: NUM_SIGNALS_def upt_conv_Cons)
  moreover have "filter (\<lambda>i. signum (signals armed_state i) = 10 \<and>
      write_fd (signals armed_state i) > 0) [1..<NUM_SIGNALS] = []"
    by (auto simp: filter_empty_conv armed_simps zero_info_def)
  ultimately show ?thesis by (simp add: armed_simps)
qed

declare default_handler_from.simps [simp del]

lemma dh_from_signals:
  "signals (default_handler_from i sig st) j =
     (if i \<le> j \<and> j < NUM_SIGNALS \<and> signum (signals st j) = sig
      then (signals st j)\<lparr>count := count (signals st j) + 1\<rparr> else signals st j)"
proof (induction i sig st rule: default_handler_from.induct)
  case (1 i sig st)
  show ?case
  proof (cases "i < NUM_SIGNALS")
    case False
    then show ?thesis by (simp add: default_handler_from.simps [of i])
  next
    case True
    show ?thesis
    proof (cases "signum (signals st i) = sig")
      case False
      with True 1(1) show ?thesis
        by (subst default_handler_from.simps) (auto simp: Suc_le_eq le_less)
    next
      case eq: True
      with True 1(2) [OF True _ refl refl refl] show ?thesis
        by (subst default_handler_from.simps) (auto simp: Let_def Suc_le_eq le_less)
    qed
  qed
qed

lemma dh_from_trace:
  "trace (default_handler_from i sig st) =
     trace st @ map (\<lambda>j. Write (write_fd (signals st j)) (of_int sig))
       (filter (\<lambda>j. signum (signals st j) = sig \<and> write_fd (signals st j) > 0) [i..<NUM_SIGNALS])"
proof (induction i sig st rule: default_handler_from.induct)
  case (1 i sig st)
  show ?case
  proof (cases "i < NUM_SIGNALS")
    case False
    then show ?thesis by (simp add: default_handler_from.simps [of i])
  next
    case True
    show ?thesis
    proof (cases "signum (signals st i) = sig")
      case False
      with True 1(1) show ?thesis
        by (subst default_handler_from.simps) (simp add: upt_conv_Cons)
    next
      case eq: True
      define st2 where "st2 = (let st1 = upd_slot i (\<lambda>s. s\<lparr>count := count s + 1\<rparr>) st;
               fd = write_fd (signals st1 i)
           in (if fd > 0 then log_event (Write fd (of_int sig)) st1 else st1))"
      have same: "\<And>j. signum (signals st2 j) = signum (signals st j)"
                 "\<And>j. write_fd (signals st2 j) = write_fd (signals st j)"
        by (simp_all add: st2_def Let_def)
      have tr: "trace st2 = trace st @ (if write_fd (signals st i) > 0
                   then [Write (write_fd (signals st i)) (of_int sig)] else [])"
        by (simp add: st2_def Let_def)
      have unf: "default_handler_from i sig st = default_handler_from (Suc i) sig st2"
        using True eq by (subst default_handler_from.simps) (simp add: st2_def Let_def)
      have ih: "trace (default_handler_from (Suc i) sig st2) =
         trace st2 @ map (\<lambda>j. Write (write_fd (signals st2 j)) (of_int sig))
          (filter (\<lambda>j. signum (signals st2 j) = sig \<and> write_fd (signals st2 j) > 0)
             [Suc i..<NUM_SIGNALS])"
        using 1(2) [OF True _ refl refl refl] eq by (simp add: st2_def Let_def)
      show ?thesis
        using True eq by (simp add: unf ih same tr upt_conv_Cons)
    qed
  qed
qed

lemma dh_from_nonblock:
  "nonblock (default_handler_from i sig st) = nonblock st"
proof (induction i sig st rule: default_handler_from.induct)
  case (1 i sig st)
  show ?case
  proof (cases "i < NUM_SIGNALS")
    case False
    then show ?thesis by (simp add: default_handler_from.simps [of i])
  next
    case True
    show ?thesis
    proof (cases "signum (signals st i) = sig")
      case False
      with True 1(1) show ?thesis
        by (subst default_handler_from.simps) simp
    next
      case eq: True
      with True 1(2) [OF True _ refl refl refl] show ?thesis
        by (subst default_handler_from.simps) (simp add: Let_def)
    qed
  qed
qed

lemma deliver_count:
  assumes "j < NUM_SIGNALS" "signum (signals st j) = sig"
  shows "count (signals (deliver n sig st) j) = count (signals st j) + of_nat n"
  using assms
proof (induction n arbitrary: st)
  case 0
  then show ?case by simp
next
  case (Suc n)
  have "signum (signals (default_handler sig st) j) = sig"
    using Suc.prems by (simp add: default_handler_def dh_from_signals)
  from Suc.IH [OF Suc.prems(1) this] Suc.prems show ?case
    by (simp add: default_handler_def dh_from_signals)
qed

lemma deliver_other_slot:
  assumes "signum (signals st j) \<noteq> sig" "j < NUM_SIGNALS"
  shows "signals (deliver n sig st) j = signals st j"
  using assms
proof (induction n arbitrary: st)
  case 0
  then show ?case by simp
next
  case (Suc n)
  have one: "signals (default_handler sig st) j = signals st j"
    using Suc.prems by (simp add: default_handler_def dh_from_signals)
  with Suc.prems have "signum (signals (default_handler sig st) j) \<noteq> sig" by simp
  from Suc.IH [OF this Suc.prems(2)] one show ?case by simp
qed

lemma deliver_trace:
  assumes "\<forall>i<NUM_SIGNALS. signum (signals st i) = sig \<longrightarrow> write_fd (signals st i) \<le> 0"
  shows "trace (deliver n sig st) = trace st"
  using assms
proof (induction n arbitrary: st)
  case 0
  then show ?case by simp
next
  case (Suc n)
  have nowrite: "filter (\<lambda>j. signum (signals st j) = sig \<and> write_fd (signals st j) > 0) [0..<NUM_SIGNALS] = []"
    using Suc.prems by (auto simp: filter_empty_conv)
  have tr: "trace (default_handler sig st) = trace st"
    by (simp add: default_handler_def dh_from_trace nowrite)
  have "\<forall>i<NUM_SIGNALS. signum (signals (default_handler sig st) i) = sig \<longrightarrow> write_fd (signals (default_handler sig st) i) \<le> 0"
    using Suc.prems by (simp add: default_handler_def dh_from_signals)
  from Suc.IH [OF this] tr show ?case by simp
qed

lemma sint_small: "n < 2 ^ 31 \<Longrightarrow> sint (of_nat n :: 32 word) = int n"
  by (simp add: signed_of_nat signed_take_bit_int_eq_self)

section \<open>uninstall\<close>

declare count_handlers_from.simps [simp del]

lemma count_handlers_from_eq:
  "count_handlers_from i sig c st =
     c + int (length (filter (\<lambda>j. signum (signals st j) = sig) [i..<NUM_SIGNALS]))"
proof (induction i sig c st rule: count_handlers_from.induct)
  case (1 i sig c st)
  show ?case
  proof (cases "i < NUM_SIGNALS")
    case False
    then show ?thesis by (simp add: count_handlers_from.simps [of i])
  next
    case True
    with 1 [OF True] show ?thesis
      by (subst count_handlers_from.simps) (simp add: upt_conv_Cons)
  qed
qed

lemma count_handlers_card:
  "count_handlers sig st = int (card {j. j < NUM_SIGNALS \<and> signum (signals st j) = sig})"
proof -
  have "{x. signum (signals st x) = sig} \<inter> set [0..<NUM_SIGNALS] =
        {j. j < NUM_SIGNALS \<and> signum (signals st j) = sig}"
    by auto
  then show ?thesis
    by (simp add: count_handlers_def count_handlers_from_eq distinct_length_filter)
qed

lemma count_handlers_sole:
  assumes "k < NUM_SIGNALS" "signum (signals st k) = sig"
    and "\<forall>j<NUM_SIGNALS. j \<noteq> k \<longrightarrow> signum (signals st j) \<noteq> sig"
  shows "count_handlers sig st = 1"
proof -
  have "{j. j < NUM_SIGNALS \<and> signum (signals st j) = sig} = {k}"
    using assms by auto
  then show ?thesis by (simp add: count_handlers_card)
qed

lemma count_handlers_shared:
  assumes "k < NUM_SIGNALS" "signum (signals st k) = sig"
    and "j < NUM_SIGNALS" "j \<noteq> k" "signum (signals st j) = sig"
  shows "count_handlers sig st \<ge> 2"
proof -
  have fin: "finite {i. i < NUM_SIGNALS \<and> signum (signals st i) = sig}" by simp
  have "{k, j} \<subseteq> {i. i < NUM_SIGNALS \<and> signum (signals st i) = sig}"
    using assms by auto
  from card_mono [OF fin this] assms(4) show ?thesis
    by (simp add: count_handlers_card)
qed

lemma uninstall_valid:
  "k < NUM_SIGNALS \<Longrightarrow>
   Mono_Unix_UnixSignal_uninstall 0 (Slot (int k)) st =
     (case uninstall_slot k (log_event MutexLock st) of
        (r, st1) \<Rightarrow> Inr (r, log_event MutexUnlock st1))"
  by (simp add: Mono_Unix_UnixSignal_uninstall_def)

lemma count_handlers_log [simp]:
  "count_handlers sig (log_event e st) = count_handlers sig st"
  by (simp add: count_handlers_card)

lemma uninstall_rejected:
  "handle_rejected p \<Longrightarrow>
   Mono_Unix_UnixSignal_uninstall 0 p st =
     Inr (-1, log_event MutexUnlock ((log_event MutexLock st)\<lparr>errno := EINVAL\<rparr>))"
  by (simp add: Mono_Unix_UnixSignal_uninstall_def)

text \<open>
  The pointer one past the end of the table passes the test of line 166, and the slot it
  is dereferenced at lies outside the table.
\<close>

lemma uninstall_one_past_end:
  "Mono_Unix_UnixSignal_uninstall 0 (Slot (int NUM_SIGNALS)) st = Inl BadPointer"
  by (simp add: Mono_Unix_UnixSignal_uninstall_def)

lemma uninstall_slot_freed:
  assumes "signum (signals st k) = 0"
    and "have_handler (signals st k) = 0 \<or> count_handlers 0 st \<noteq> 1"
  shows "fst (uninstall_slot k st) = -1"
    and "signals (snd (uninstall_slot k st)) = signals st"
    and "errno (snd (uninstall_slot k st)) = errno st"
    and "disposition (snd (uninstall_slot k st)) = disposition st"
    and "trace (snd (uninstall_slot k st)) = trace st"
proof -
  have "(signals st k)\<lparr>signum := 0\<rparr> = signals st k"
    using assms(1) by (metis signal_info.surjective signal_info.update_convs(1))
  then have "(signals st)(k := (signals st k)\<lparr>signum := 0\<rparr>) = signals st"
    by simp
  then show "fst (uninstall_slot k st) = -1"
    and "signals (snd (uninstall_slot k st)) = signals st"
    and "errno (snd (uninstall_slot k st)) = errno st"
    and "disposition (snd (uninstall_slot k st)) = disposition st"
    and "trace (snd (uninstall_slot k st)) = trace st"
    using assms by (auto simp: uninstall_slot_def)
qed

lemma uninstall_slot_sole:
  assumes "k < NUM_SIGNALS" "have_handler (signals st k) \<noteq> 0"
    and "\<forall>j<NUM_SIGNALS. j \<noteq> k \<longrightarrow> signum (signals st j) \<noteq> signum (signals st k)"
    and "catchable st (signum (signals st k))"
  shows "uninstall_slot k st =
     (0, upd_slot k (\<lambda>s. s\<lparr>signum := 0\<rparr>)
           (upd_slot k (\<lambda>s. s\<lparr>handler := NULL_handler, have_handler := 0\<rparr>)
              ((log_event (Signal (signum (signals st k)) (handler (signals st k))) st)
                 \<lparr>disposition := (disposition st)(signum (signals st k) := handler (signals st k))\<rparr>)))"
  using assms count_handlers_sole [OF assms(1) refl assms(3)]
  by (simp add: uninstall_slot_def os_signal_def)

text \<open>
  C2. What uninstall does on a slot of the table. When another slot holds the same
  signal number, the slot is cleared, \<^verbatim>\<open>signal\<close> is not called and the disposition
  stays, but the value returned is -1, not 0: \<^verbatim>\<open>r\<close> starts at -1 and is set to 0
  only in the branch that restores the disposition. When the slot is the only one with
  its signal number (and \<^verbatim>\<open>have_handler\<close> is set, and the platform accepts the
  signal), the recorded handler is installed again, the slot is cleared and 0 is returned.
\<close>

theorem uninstall_shared_returns_failure:
  "(k < NUM_SIGNALS \<and> signum (signals st k) \<noteq> 0 \<and>
    (\<exists>j<NUM_SIGNALS. j \<noteq> k \<and> signum (signals st j) = signum (signals st k)) \<longrightarrow>
      Mono_Unix_UnixSignal_uninstall 0 (Slot (int k)) st =
        Inr (-1, log_event MutexUnlock
               (upd_slot k (\<lambda>s. s\<lparr>signum := 0\<rparr>) (log_event MutexLock st)))) \<and>
   (k < NUM_SIGNALS \<and> have_handler (signals st k) \<noteq> 0 \<and>
    (\<forall>j<NUM_SIGNALS. j \<noteq> k \<longrightarrow> signum (signals st j) \<noteq> signum (signals st k)) \<and>
    catchable st (signum (signals st k)) \<longrightarrow>
      (\<exists>st'. Mono_Unix_UnixSignal_uninstall 0 (Slot (int k)) st = Inr (0, st') \<and>
         disposition st' =
           (disposition st)(signum (signals st k) := handler (signals st k)) \<and>
         signum (signals st' k) = 0))"
proof (intro conjI impI)
  assume a: "k < NUM_SIGNALS \<and> signum (signals st k) \<noteq> 0 \<and>
    (\<exists>j<NUM_SIGNALS. j \<noteq> k \<and> signum (signals st j) = signum (signals st k))"
  then obtain j where j: "j < NUM_SIGNALS" "j \<noteq> k" "signum (signals st j) = signum (signals st k)"
    by auto
  from a have k: "k < NUM_SIGNALS" by simp
  have "count_handlers (signum (signals st k)) st \<ge> 2"
    using count_handlers_shared [OF k refl j] .
  then show "Mono_Unix_UnixSignal_uninstall 0 (Slot (int k)) st =
        Inr (-1, log_event MutexUnlock
               (upd_slot k (\<lambda>s. s\<lparr>signum := 0\<rparr>) (log_event MutexLock st)))"
    using k by (simp add: uninstall_valid uninstall_slot_def)
next
  assume a: "k < NUM_SIGNALS \<and> have_handler (signals st k) \<noteq> 0 \<and>
    (\<forall>j<NUM_SIGNALS. j \<noteq> k \<longrightarrow> signum (signals st j) \<noteq> signum (signals st k)) \<and>
    catchable st (signum (signals st k))"
  let ?st0 = "log_event MutexLock st"
  have "uninstall_slot k ?st0 =
     (0, upd_slot k (\<lambda>s. s\<lparr>signum := 0\<rparr>)
           (upd_slot k (\<lambda>s. s\<lparr>handler := NULL_handler, have_handler := 0\<rparr>)
              ((log_event (Signal (signum (signals ?st0 k)) (handler (signals ?st0 k))) ?st0)
                 \<lparr>disposition := (disposition ?st0)(signum (signals ?st0 k) := handler (signals ?st0 k))\<rparr>)))"
    using a by (intro uninstall_slot_sole) simp_all
  with a show "\<exists>st'. Mono_Unix_UnixSignal_uninstall 0 (Slot (int k)) st = Inr (0, st') \<and>
         disposition st' =
           (disposition st)(signum (signals st k) := handler (signals st k)) \<and>
         signum (signals st' k) = 0"
    by (simp add: uninstall_valid)
qed

theorem uninstall_shared_returns_failure_witness:
  "signum (signals shared_state 0) = 10 \<and> signum (signals shared_state 1) = 10 \<and>
   (\<exists>st'. Mono_Unix_UnixSignal_uninstall 0 (Slot 0) shared_state = Inr (-1, st') \<and>
      signum (signals st' 0) = 0 \<and> disposition st' 10 = DefaultHandler \<and>
      trace st' = [MutexLock, MutexUnlock]) \<and>
   (\<exists>st'. Mono_Unix_UnixSignal_uninstall 0 (Slot 0) registered_state = Inr (0, st') \<and>
      disposition st' 10 = NULL_handler)"
proof -
  have "\<exists>j<NUM_SIGNALS. j \<noteq> 0 \<and> signum (signals shared_state j) = signum (signals shared_state 0)"
    by (rule exI [of _ 1]) (simp add: shared_simps NUM_SIGNALS_def)
  then have one: "Mono_Unix_UnixSignal_uninstall 0 (Slot 0) shared_state =
        Inr (-1, log_event MutexUnlock
               (upd_slot 0 (\<lambda>s. s\<lparr>signum := 0\<rparr>) (log_event MutexLock shared_state)))"
    using uninstall_shared_returns_failure [of 0 shared_state]
    by (simp add: shared_simps NUM_SIGNALS_def zero_info_def)
  have two: "\<exists>st'. Mono_Unix_UnixSignal_uninstall 0 (Slot 0) registered_state = Inr (0, st') \<and>
      disposition st' 10 = NULL_handler"
    using uninstall_shared_returns_failure [of 0 registered_state]
    by (auto simp: registered_simps NUM_SIGNALS_def zero_info_def catchable_std_def)
  show ?thesis
    using two by (simp add: one shared_simps zero_info_def)
qed

text \<open>
  C4. A null pointer, a pointer below the table and a pointer above its one-past-the-end
  address are rejected: uninstall returns -1 with \<^verbatim>\<open>errno\<close> set to \<^verbatim>\<open>EINVAL\<close>, calls
  nothing but the lock and writes nothing to the table. A pointer to a free slot of the
  table is not recognised: uninstall returns -1 and leaves \<^verbatim>\<open>errno\<close>, the table and the
  dispositions as they were (whenever the slot's \<^verbatim>\<open>have_handler\<close> is 0 or another slot
  is free as well).
\<close>

theorem uninstall_invalid_handle:
  "(p = NULL \<or> (\<exists>k. p = Slot k \<and> (k < 0 \<or> int NUM_SIGNALS < k)) \<longrightarrow>
      (\<exists>st'. Mono_Unix_UnixSignal_uninstall 0 p st = Inr (-1, st') \<and> errno st' = EINVAL \<and>
         signals st' = signals st \<and> disposition st' = disposition st \<and>
         trace st' = trace st @ [MutexLock, MutexUnlock])) \<and>
   (k < NUM_SIGNALS \<and> signum (signals st k) = 0 \<and>
    (have_handler (signals st k) = 0 \<or> (\<exists>j<NUM_SIGNALS. j \<noteq> k \<and> signum (signals st j) = 0)) \<longrightarrow>
      (\<exists>st'. Mono_Unix_UnixSignal_uninstall 0 (Slot (int k)) st = Inr (-1, st') \<and>
         errno st' = errno st \<and> signals st' = signals st \<and> disposition st' = disposition st \<and>
         trace st' = trace st @ [MutexLock, MutexUnlock]))"
proof (intro conjI impI)
  assume "p = NULL \<or> (\<exists>k. p = Slot k \<and> (k < 0 \<or> int NUM_SIGNALS < k))"
  then have "handle_rejected p" by auto
  from uninstall_rejected [OF this]
  show "\<exists>st'. Mono_Unix_UnixSignal_uninstall 0 p st = Inr (-1, st') \<and> errno st' = EINVAL \<and>
         signals st' = signals st \<and> disposition st' = disposition st \<and>
         trace st' = trace st @ [MutexLock, MutexUnlock]"
    by simp
next
  assume a: "k < NUM_SIGNALS \<and> signum (signals st k) = 0 \<and>
    (have_handler (signals st k) = 0 \<or> (\<exists>j<NUM_SIGNALS. j \<noteq> k \<and> signum (signals st j) = 0))"
  let ?st0 = "log_event MutexLock st"
  have c: "have_handler (signals ?st0 k) = 0 \<or> count_handlers 0 ?st0 \<noteq> 1"
  proof (cases "have_handler (signals st k) = 0")
    case True
    then show ?thesis by simp
  next
    case False
    with a obtain j where "j < NUM_SIGNALS" "j \<noteq> k" "signum (signals st j) = 0" by auto
    from count_handlers_shared [OF _ _ this] a have "count_handlers 0 st \<ge> 2" by simp
    then show ?thesis by simp
  qed
  have s: "signum (signals ?st0 k) = 0" using a by simp
  obtain r st1 where u: "uninstall_slot k ?st0 = (r, st1)" by (cases "uninstall_slot k ?st0")
  from uninstall_slot_freed [OF s c] u
  have "r = -1" "signals st1 = signals st" "errno st1 = errno st"
    "disposition st1 = disposition st" "trace st1 = trace st @ [MutexLock]"
    by simp_all
  with a u show "\<exists>st'. Mono_Unix_UnixSignal_uninstall 0 (Slot (int k)) st = Inr (-1, st') \<and>
         errno st' = errno st \<and> signals st' = signals st \<and> disposition st' = disposition st \<and>
         trace st' = trace st @ [MutexLock, MutexUnlock]"
    by (simp add: uninstall_valid)
qed

theorem uninstall_invalid_handle_witness:
  "(\<exists>st'. Mono_Unix_UnixSignal_uninstall 0 NULL fresh_state = Inr (-1, st') \<and>
      errno st' = EINVAL \<and> signals st' = signals fresh_state) \<and>
   signum (signals fresh_state 0) = 0 \<and>
   (\<exists>st'. Mono_Unix_UnixSignal_uninstall 0 (Slot 0) fresh_state = Inr (-1, st') \<and>
      errno st' = errno fresh_state \<and> signals st' = signals fresh_state)"
  using uninstall_invalid_handle [of NULL fresh_state 0]
  by (auto simp: fresh_state_def initial_state_def zero_info_def NUM_SIGNALS_def)

text \<open>
  The claim as stated fails on a handle that was already uninstalled: the second call
  returns -1 but \<^verbatim>\<open>errno\<close> is not \<^verbatim>\<open>EINVAL\<close>.
\<close>

theorem uninstall_freed_slot_counterexample:
  "(case Mono_Unix_UnixSignal_uninstall 0 (Slot 0) registered_state of
      Inl f \<Rightarrow> False
    | Inr (r1, st1) \<Rightarrow>
        r1 = 0 \<and> signum (signals st1 0) = 0 \<and>
        (case Mono_Unix_UnixSignal_uninstall 0 (Slot 0) st1 of
           Inl f \<Rightarrow> False
         | Inr (r2, st2) \<Rightarrow> r2 = -1 \<and> errno st2 = 0 \<and> errno st2 \<noteq> EINVAL))"
proof -
  let ?st0 = "log_event MutexLock registered_state"
  have k: "(0::nat) < NUM_SIGNALS" by (simp add: NUM_SIGNALS_def)
  have sole: "\<forall>j<NUM_SIGNALS. j \<noteq> 0 \<longrightarrow> signum (signals ?st0 j) \<noteq> signum (signals ?st0 0)"
    by (simp add: registered_simps zero_info_def)
  have hh: "have_handler (signals ?st0 0) \<noteq> 0"
    by (simp add: registered_simps zero_info_def)
  have ca: "catchable ?st0 (signum (signals ?st0 0))"
    by (simp add: registered_simps zero_info_def catchable_std_def)
  note first = uninstall_slot_sole [OF k hh sole ca]
  define st1 where "st1 = log_event MutexUnlock (snd (uninstall_slot 0 ?st0))"
  have u1: "Mono_Unix_UnixSignal_uninstall 0 (Slot 0) registered_state = Inr (0, st1)"
    using uninstall_valid [OF k, of registered_state] first by (simp add: st1_def)
  have s1: "signum (signals st1 0) = 0" "have_handler (signals st1 0) = 0" "errno st1 = 0"
    by (simp_all add: st1_def first registered_simps)
  let ?st2 = "log_event MutexLock st1"
  have "signum (signals ?st2 0) = 0" "have_handler (signals ?st2 0) = 0 \<or> count_handlers 0 ?st2 \<noteq> 1"
    using s1 by simp_all
  from uninstall_slot_freed [OF this]
  have "fst (uninstall_slot 0 ?st2) = -1" "errno (snd (uninstall_slot 0 ?st2)) = 0"
    using s1 by simp_all
  then have u2: "\<exists>st2. Mono_Unix_UnixSignal_uninstall 0 (Slot 0) st1 = Inr (-1, st2) \<and> errno st2 = 0"
    using uninstall_valid [OF k, of st1] by (cases "uninstall_slot 0 ?st2") simp
  from u1 s1 u2 show ?thesis by (auto simp: EINVAL_def)
qed

section \<open>install\<close>

declare install_loop.simps [simp del]

lemma install_loop_chosen:
  assumes "h_slot l = Some k" "found l = None"
  shows "h_slot (fst (install_loop i sig l st)) = Some k \<and>
         found (fst (install_loop i sig l st)) =
           map_option (\<lambda>j. handler (signals st j)) (find (is_match sig st) [i..<NUM_SIGNALS]) \<and>
         snd (install_loop i sig l st) = st"
  using assms
proof (induction i sig l st rule: install_loop.induct)
  case (1 i sig l st)
  show ?case
  proof (cases "i < NUM_SIGNALS")
    case False
    then show ?thesis using 1(2,3) by (simp add: install_loop.simps [of i])
  next
    case True
    show ?thesis
    proof (cases "is_match sig st i")
      case m: True
      then have "install_pass i sig l st = (True, l\<lparr>found := Some (handler (signals st i))\<rparr>, st)"
        using 1(2,3) by (simp add: install_pass_def is_match_def)
      then show ?thesis
        using True m 1(2) by (simp add: install_loop.simps [of i] upt_conv_Cons)
    next
      case m: False
      then have p: "install_pass i sig l st = (False, l, st)"
        using 1(2,3) by (auto simp: install_pass_def is_match_def)
      from 1(1) [OF True p [symmetric] refl refl 1(2,3)] show ?thesis
        using True m p by (simp add: install_loop.simps [of i] upt_conv_Cons)
    qed
  qed
qed

lemma install_pass_occupied:
  assumes "h_slot l = None" "signum (signals st i) \<noteq> 0"
  shows "install_pass i sig l st =
     (False, (if found l = None \<and> is_match sig st i
              then l\<lparr>found := Some (handler (signals st i))\<rparr> else l), st)"
  using assms by (simp add: install_pass_def is_match_def)

lemma install_pass_free_fail:
  assumes "h_slot l = None" "signum (signals st i) = 0" "\<not> catchable st sig"
  shows "install_pass i sig l st =
     (True, l\<lparr>h_slot := None\<rparr>,
      upd_slot i (\<lambda>s. s\<lparr>handler := NULL_handler\<rparr>)
        ((log_event (Signal sig DefaultHandler) st)\<lparr>errno := EINVAL\<rparr>))"
  using assms by (simp add: install_pass_def os_signal_def)

lemma install_pass_free_ok:
  assumes "h_slot l = None" "signum (signals st i) = 0" "catchable st sig" "sig \<noteq> 0"
  shows "install_pass i sig l st = (found l \<noteq> None, l\<lparr>h_slot := Some i\<rparr>, claimed sig i st)"
  using assms by (simp add: install_pass_def os_signal_def claimed_def)

lemma claimed_other:
  "j \<noteq> k \<Longrightarrow> signals (claimed sig k st) j = signals st j"
  by (simp add: claimed_def)

lemma find_match_claimed:
  assumes "k < i"
  shows "map_option (\<lambda>j. handler (signals (claimed sig k st) j))
           (find (is_match sig (claimed sig k st)) [i..<n]) =
         map_option (\<lambda>j. handler (signals st j)) (find (is_match sig st) [i..<n])"
proof -
  have eq: "\<And>j. j \<in> set [i..<n] \<Longrightarrow> signals (claimed sig k st) j = signals st j"
    using assms by (simp add: claimed_other)
  then have "find (is_match sig (claimed sig k st)) [i..<n] = find (is_match sig st) [i..<n]"
    by (intro find_cong) (simp_all add: is_match_def)
  moreover have "\<And>j. find (is_match sig st) [i..<n] = Some j \<Longrightarrow> j \<in> set [i..<n]"
    by (auto simp: find_Some_iff)
  ultimately show ?thesis
    by (cases "find (is_match sig st) [i..<n]") (simp_all add: eq)
qed

lemma install_loop_search:
  assumes "h_slot l = None" "sig \<noteq> 0"
  shows "(case find (\<lambda>j. signum (signals st j) = 0) [i..<NUM_SIGNALS] of
            None \<Rightarrow> h_slot (fst (install_loop i sig l st)) = None \<and>
                    snd (install_loop i sig l st) = st
          | Some k \<Rightarrow>
              if catchable st sig then
                h_slot (fst (install_loop i sig l st)) = Some k \<and>
                found (fst (install_loop i sig l st)) =
                  (case found l of
                     Some p \<Rightarrow> Some p
                   | None \<Rightarrow> map_option (\<lambda>j. handler (signals st j))
                               (find (is_match sig st) [i..<NUM_SIGNALS])) \<and>
                snd (install_loop i sig l st) = claimed sig k st
              else
                h_slot (fst (install_loop i sig l st)) = None \<and>
                snd (install_loop i sig l st) =
                  upd_slot k (\<lambda>s. s\<lparr>handler := NULL_handler\<rparr>)
                    ((log_event (Signal sig DefaultHandler) st)\<lparr>errno := EINVAL\<rparr>))"
  using assms
proof (induction i sig l st rule: install_loop.induct)
  case (1 i sig l st)
  show ?case
  proof (cases "i < NUM_SIGNALS")
    case False
    then show ?thesis using 1(2) by (simp add: install_loop.simps [of i])
  next
    case True
    then have upt: "[i..<NUM_SIGNALS] = i # [Suc i..<NUM_SIGNALS]" by (simp add: upt_conv_Cons)
    show ?thesis
    proof (cases "signum (signals st i) = 0")
      case free: True
      then have nm: "\<not> is_match sig st i" using 1(3) by (simp add: is_match_def)
      show ?thesis
      proof (cases "catchable st sig")
        case False
        from install_pass_free_fail [OF 1(2) free False]
        show ?thesis using True free False
          by (simp add: install_loop.simps [of i] upt)
      next
        case c: True
        note p = install_pass_free_ok [OF 1(2) free c 1(3)]
        show ?thesis
        proof (cases "found l")
          case (Some q)
          then show ?thesis using True free c p
            by (simp add: install_loop.simps [of i] upt)
        next
          case None
          have l': "h_slot (l\<lparr>h_slot := Some i\<rparr>) = Some i" "found (l\<lparr>h_slot := Some i\<rparr>) = None"
            using None by simp_all
          from install_loop_chosen [OF l', of "Suc i" sig "claimed sig i st"]
          show ?thesis using True free c p None nm
            by (simp add: install_loop.simps [of i] upt find_match_claimed)
        qed
      qed
    next
      case occ: False
      note p = install_pass_occupied [OF 1(2) occ, of sig]
      show ?thesis
      proof (cases "found l = None \<and> is_match sig st i")
        case m: True
        let ?l' = "l\<lparr>found := Some (handler (signals st i))\<rparr>"
        have p': "install_pass i sig l st = (False, ?l', st)" using p m by simp
        have h': "h_slot ?l' = None" using 1(2) by simp
        from 1(1) [OF True p' [symmetric] refl refl h' 1(3)]
        show ?thesis using True occ p' m
          by (simp add: install_loop.simps [of i] upt split: option.splits)
      next
        case m: False
        have p': "install_pass i sig l st = (False, l, st)" using p m by simp
        from 1(1) [OF True p' [symmetric] refl refl 1(2) 1(3)]
        show ?thesis using True occ p' m
          by (auto simp: install_loop.simps [of i] upt split: option.splits)
      qed
    qed
  qed
qed

lemma install_alloc_eq:
  assumes "sig \<noteq> 0"
  shows "install_alloc sig st =
     (case first_free st of
        None \<Rightarrow> (None, st)
      | Some k \<Rightarrow>
          if catchable st sig then
            (Some k,
             (case first_match sig st of
                None \<Rightarrow> claimed sig k st
              | Some j \<Rightarrow>
                  upd_slot k (\<lambda>s. s\<lparr>have_handler := 1, handler := handler (signals st j)\<rparr>)
                    (claimed sig k st)))
          else
            (None, upd_slot k (\<lambda>s. s\<lparr>handler := NULL_handler\<rparr>)
                     ((log_event (Signal sig DefaultHandler) st)\<lparr>errno := EINVAL\<rparr>)))"
proof -
  let ?l0 = "\<lparr>h_slot = None, found = None\<rparr>"
  let ?R = "install_loop 0 sig ?l0 st"
  have l0: "h_slot ?l0 = None" by simp
  note s = install_loop_search [OF l0 assms, where st = st and i = 0]
  have alloc: "install_alloc sig st =
      (case (h_slot (fst ?R), found (fst ?R)) of
            (Some k, Some p) \<Rightarrow>
              (Some k, upd_slot k (\<lambda>s. s\<lparr>have_handler := 1, handler := p\<rparr>) (snd ?R))
          | _ \<Rightarrow> (h_slot (fst ?R), snd ?R))"
    by (simp add: install_alloc_def case_prod_beta)
  show ?thesis
  proof (cases "first_free st")
    case None
    with s show ?thesis by (simp add: alloc first_free_def)
  next
    case (Some k)
    show ?thesis
    proof (cases "catchable st sig")
      case False
      with s Some show ?thesis by (simp add: alloc first_free_def)
    next
      case True
      with s Some show ?thesis
        by (cases "first_match sig st") (simp_all add: alloc first_free_def first_match_def)
    qed
  qed
qed

lemma first_free_Some:
  "first_free st = Some k \<longleftrightarrow>
     k < NUM_SIGNALS \<and> signum (signals st k) = 0 \<and> (\<forall>j<k. signum (signals st j) \<noteq> 0)"
proof -
  have "first_free st = Some k \<longleftrightarrow>
     (\<exists>i<length [0..<NUM_SIGNALS]. signum (signals st ([0..<NUM_SIGNALS] ! i)) = 0 \<and>
         k = [0..<NUM_SIGNALS] ! i \<and> (\<forall>j<i. signum (signals st ([0..<NUM_SIGNALS] ! j)) \<noteq> 0))"
    unfolding first_free_def find_Some_iff by simp
  also have "\<dots> \<longleftrightarrow> k < NUM_SIGNALS \<and> signum (signals st k) = 0 \<and> (\<forall>j<k. signum (signals st j) \<noteq> 0)"
    by auto
  finally show ?thesis .
qed

lemma first_match_Some:
  "first_match sig st = Some k \<longleftrightarrow>
     k < NUM_SIGNALS \<and> is_match sig st k \<and> (\<forall>j<k. \<not> is_match sig st j)"
proof -
  have "first_match sig st = Some k \<longleftrightarrow>
     (\<exists>i<length [0..<NUM_SIGNALS]. is_match sig st ([0..<NUM_SIGNALS] ! i) \<and>
         k = [0..<NUM_SIGNALS] ! i \<and> (\<forall>j<i. \<not> is_match sig st ([0..<NUM_SIGNALS] ! j)))"
    unfolding first_match_def find_Some_iff by simp
  also have "\<dots> \<longleftrightarrow> k < NUM_SIGNALS \<and> is_match sig st k \<and> (\<forall>j<k. \<not> is_match sig st j)"
    by auto
  finally show ?thesis .
qed

lemma first_match_None:
  "first_match sig st = None \<longleftrightarrow> (\<forall>j<NUM_SIGNALS. \<not> is_match sig st j)"
  by (auto simp: first_match_def find_None_iff)

lemma install_pass_inv:
  assumes "install_pass i sig l st = (b, l', st')"
  shows "(\<forall>j. signum (signals st' j) = signum (signals st j)) \<and>
         (\<forall>k. h_slot l' = Some k \<longrightarrow> h_slot l = Some k \<or> (k = i \<and> signum (signals st i) = 0))"
  using assms
  by (auto simp: install_pass_def os_signal_def Let_def split: if_splits prod.splits option.splits)

lemma install_loop_inv:
  "(\<forall>j. signum (signals (snd (install_loop i sig l st)) j) = signum (signals st j)) \<and>
   (\<forall>k. h_slot (fst (install_loop i sig l st)) = Some k \<longrightarrow>
      h_slot l = Some k \<or> (k < NUM_SIGNALS \<and> signum (signals st k) = 0))"
proof (induction i sig l st rule: install_loop.induct)
  case (1 i sig l st)
  show ?case
  proof (cases "i < NUM_SIGNALS")
    case False
    then show ?thesis by (simp add: install_loop.simps [of i])
  next
    case True
    obtain b l' st' where p: "install_pass i sig l st = (b, l', st')"
      by (cases "install_pass i sig l st") auto
    note inv = install_pass_inv [OF p]
    show ?thesis
    proof (cases b)
      case True
      with p \<open>i < NUM_SIGNALS\<close> inv show ?thesis
        by (auto simp: install_loop.simps [of i])
    next
      case False
      then have b: "b = False" by simp
      from 1 [OF True p [symmetric] b refl] p False True inv
      show ?thesis
        by (auto simp: install_loop.simps [of i])
    qed
  qed
qed

lemma install_alloc_inv:
  assumes "install_alloc sig st = (Some k, st1)"
  shows "k < NUM_SIGNALS \<and> signum (signals st k) = 0 \<and>
         (\<forall>j. signum (signals st1 j) = signum (signals st j))"
proof -
  let ?R = "install_loop 0 sig \<lparr>h_slot = None, found = None\<rparr> st"
  note inv = install_loop_inv [of 0 sig "\<lparr>h_slot = None, found = None\<rparr>" st]
  from assms have "h_slot (fst ?R) = Some k"
    by (auto simp: install_alloc_def case_prod_beta split: option.splits)
  moreover from assms have "\<forall>j. signum (signals st1 j) = signum (signals (snd ?R) j)"
    by (auto simp: install_alloc_def case_prod_beta split: option.splits)
  ultimately show ?thesis using inv by auto
qed

lemma first_log [simp]:
  "first_free (log_event e st) = first_free st"
  "first_match sig (log_event e st) = first_match sig st"
  by (simp_all add: first_free_def first_match_def is_match_def [abs_def])

lemma install_success:
  assumes "sig \<noteq> 0" "Mono_Unix_UnixSignal_install 0 sig st = (Slot k', st')"
  shows "\<exists>k. k' = int k \<and> first_free st = Some k \<and> catchable st sig \<and>
           signals st' = (signals st)(k :=
              (signals st k)\<lparr>signum := sig, count := 0, have_handler := 1,
                 handler := (case first_match sig st of
                               None \<Rightarrow> disposition st sig
                             | Some j \<Rightarrow> handler (signals st j))\<rparr>) \<and>
           disposition st' = (disposition st)(sig := DefaultHandler) \<and>
           catchable st' = catchable st \<and> errno st' = errno st \<and>
           trace st' = trace st @ [MutexLock, Signal sig DefaultHandler, MutexUnlock]"
proof -
  let ?st0 = "log_event MutexLock st"
  note al = install_alloc_eq [OF assms(1), of ?st0]
  show ?thesis
  proof (cases "first_free st")
    case None
    with assms(2) al show ?thesis by (simp add: Mono_Unix_UnixSignal_install_def)
  next
    case (Some k)
    show ?thesis
    proof (cases "catchable st sig")
      case False
      with assms(2) al Some show ?thesis by (simp add: Mono_Unix_UnixSignal_install_def)
    next
      case True
      show ?thesis
      proof (cases "first_match sig st")
        case None
        with assms(2) al Some True show ?thesis
          by (auto simp: Mono_Unix_UnixSignal_install_def claimed_def publish_signum_def
              reset_count_def)
      next
        case (Some j)
        with assms(2) al \<open>first_free st = Some k\<close> True show ?thesis
          by (auto simp: Mono_Unix_UnixSignal_install_def claimed_def publish_signum_def
              reset_count_def)
      qed
    qed
  qed
qed

lemma install_returns:
  assumes "sig \<noteq> 0" "first_free st = Some k" "catchable st sig"
  shows "\<exists>st'. Mono_Unix_UnixSignal_install 0 sig st = (Slot (int k), st')"
  using assms install_alloc_eq [OF assms(1), of "log_event MutexLock st"]
  by (simp add: Mono_Unix_UnixSignal_install_def)

lemma uninstall_slot_shared:
  assumes "k < NUM_SIGNALS" "j < NUM_SIGNALS" "j \<noteq> k"
    "signum (signals st j) = signum (signals st k)"
  shows "uninstall_slot k st = (-1, upd_slot k (\<lambda>s. s\<lparr>signum := 0\<rparr>) st)"
  using count_handlers_shared [OF assms(1) refl assms(2,3,4)]
  by (simp add: uninstall_slot_def)

lemma first_free_fresh: "first_free fresh_state = Some 0"
  by (simp add: first_free_Some fresh_simps zero_info_def NUM_SIGNALS_def)

lemma first_free_registered: "first_free registered_state = Some 1"
  by (simp add: first_free_Some registered_simps zero_info_def NUM_SIGNALS_def)

text \<open>
  The example states are the ones the code produces: install of signal 10 on the empty
  table gives the table and dispositions of \<open>registered_state\<close>, and a second install
  of signal 10 gives those of \<open>shared_state\<close>.
\<close>

lemma registered_state_reachable:
  "\<exists>st'. Mono_Unix_UnixSignal_install 0 10 fresh_state = (Slot 0, st') \<and>
     signals st' = signals registered_state \<and> disposition st' = disposition registered_state \<and>
     catchable st' = catchable registered_state \<and> errno st' = errno registered_state"
proof -
  have c: "catchable fresh_state 10" by (simp add: fresh_simps catchable_std_def)
  from install_returns [OF _ first_free_fresh c] obtain st' where
    i: "Mono_Unix_UnixSignal_install 0 10 fresh_state = (Slot 0, st')" by auto
  have fm: "first_match 10 fresh_state = None"
    by (simp add: first_match_None is_match_def fresh_simps zero_info_def)
  from install_success [OF _ i] have
    "signals st' = signals registered_state" "disposition st' = disposition registered_state"
     "catchable st' = catchable registered_state" "errno st' = errno registered_state"
    by (auto simp: fm registered_simps fresh_simps zero_info_def)
  with i show ?thesis by blast
qed

lemma shared_state_reachable:
  "\<exists>st'. Mono_Unix_UnixSignal_install 0 10 registered_state = (Slot 1, st') \<and>
     signals st' = signals shared_state \<and> disposition st' = disposition shared_state \<and>
     catchable st' = catchable shared_state \<and> errno st' = errno shared_state"
proof -
  have c: "catchable registered_state 10" by (simp add: registered_simps catchable_std_def)
  from install_returns [OF _ first_free_registered c] obtain st' where
    i: "Mono_Unix_UnixSignal_install 0 10 registered_state = (Slot 1, st')" by auto
  have fm: "first_match 10 registered_state = Some 0"
    by (simp add: first_match_Some is_match_def registered_simps zero_info_def NUM_SIGNALS_def)
  from install_success [OF _ i] have
    "signals st' = signals shared_state" "disposition st' = disposition shared_state"
     "catchable st' = catchable shared_state" "errno st' = errno shared_state"
    by (auto simp: fm registered_simps shared_simps zero_info_def)
  with i show ?thesis by blast
qed

text \<open>
  The order of the two stores can be observed by the handler. With the stores in the
  other order, a handler that runs between them on a reused slot finds the new signal
  number together with the counter of the earlier registration, and counts on from it.
\<close>

lemma swapped_stores_expose_stale_count:
  "signum (signals (run_steps (take 1 [publish_signum 0 10, reset_count 0]) stale_state) 0) = 10 \<and>
   count (signals (run_steps (take 1 [publish_signum 0 10, reset_count 0]) stale_state) 0) = 5 \<and>
   count (signals (default_handler 10
      (run_steps (take 1 [publish_signum 0 10, reset_count 0]) stale_state)) 0) = 6"
  by (simp add: run_steps_def publish_signum_def default_handler_def dh_from_signals
      stale_state_def fresh_simps zero_info_def NUM_SIGNALS_def)

text \<open>
  C10. A call of install that returns a handle leaves the counter of that slot at 0 and
  its signal number at \<open>sig\<close>, whatever the slot held before. The two stores of
  \<open>install_stores\<close> are made counter first: at every point of that sequence (before the
  first store, between the two, after the second) the slot shows the new signal number
  only together with the counter 0. So deliveries of any signal at any one of these
  points leave the counter of the returned handle at 0, except deliveries of \<open>sig\<close>
  itself after both stores, which are counted from 0.
\<close>

theorem install_resets_count:
  "Mono_Unix_UnixSignal_install mr sig st = (Slot k', st') \<longrightarrow>
     (\<exists>k st1. k' = int k \<and> k < NUM_SIGNALS \<and>
        install_alloc sig (log_event MutexLock st) = (Some k, st1) \<and>
        st' = log_event MutexUnlock (run_steps (install_stores k sig) st1) \<and>
        count (signals st' k) = 0 \<and> signum (signals st' k) = sig \<and>
        (sig \<noteq> 0 \<longrightarrow>
           (\<forall>j\<le>length (install_stores k sig).
              (signum (signals (run_steps (take j (install_stores k sig)) st1) k) = sig \<longrightarrow>
                 count (signals (run_steps (take j (install_stores k sig)) st1) k) = 0) \<and>
              (\<forall>s n. s \<noteq> 0 \<longrightarrow>
                 count (signals (interrupted j (deliver n s) (install_stores k sig) st1) k) =
                   (if j = length (install_stores k sig) \<and> s = sig then of_nat n else 0)))))"
proof
  assume a: "Mono_Unix_UnixSignal_install mr sig st = (Slot k', st')"
  then have mr: "mr = 0" by (auto simp: Mono_Unix_UnixSignal_install_def split: if_splits)
  from a mr obtain k st1 where
    al: "install_alloc sig (log_event MutexLock st) = (Some k, st1)" and
    k': "k' = int k" and
    st': "st' = log_event MutexUnlock (run_steps (install_stores k sig) st1)"
    by (auto simp: Mono_Unix_UnixSignal_install_def simp del: run_install_stores
        split: prod.splits option.splits)
  from install_alloc_inv [OF al] have k: "k < NUM_SIGNALS" and
    free: "signum (signals st1 k) = 0" by simp_all
  have fin: "count (signals st' k) = 0 \<and> signum (signals st' k) = sig"
    by (simp add: st' publish_signum_def reset_count_def)
  have ord: "sig \<noteq> 0 \<longrightarrow>
           (\<forall>j\<le>length (install_stores k sig).
              (signum (signals (run_steps (take j (install_stores k sig)) st1) k) = sig \<longrightarrow>
                 count (signals (run_steps (take j (install_stores k sig)) st1) k) = 0) \<and>
              (\<forall>s n. s \<noteq> 0 \<longrightarrow>
                 count (signals (interrupted j (deliver n s) (install_stores k sig) st1) k) =
                   (if j = length (install_stores k sig) \<and> s = sig then of_nat n else 0)))"
  proof (intro impI allI)
    fix j
    assume sig: "sig \<noteq> 0" and "j \<le> length (install_stores k sig)"
    then have "j = 0 \<or> j = 1 \<or> j = 2" by (auto simp: install_stores_def)
    then show "(signum (signals (run_steps (take j (install_stores k sig)) st1) k) = sig \<longrightarrow>
                 count (signals (run_steps (take j (install_stores k sig)) st1) k) = 0) \<and>
              (\<forall>s n. s \<noteq> 0 \<longrightarrow>
                 count (signals (interrupted j (deliver n s) (install_stores k sig) st1) k) =
                   (if j = length (install_stores k sig) \<and> s = sig then of_nat n else 0))"
    proof (elim disjE)
      assume j: "j = 0"
      have "\<And>s n. s \<noteq> 0 \<Longrightarrow> signals (deliver n s st1) k = signals st1 k"
        using free k by (intro deliver_other_slot) simp_all
      then show ?thesis
        using sig free
        by (simp add: j interrupted_def run_steps_def install_stores_def
            publish_signum_def reset_count_def)
    next
      assume j: "j = 1"
      have "\<And>s n. s \<noteq> 0 \<Longrightarrow>
              signals (deliver n s (reset_count k st1)) k = signals (reset_count k st1) k"
        using free k by (intro deliver_other_slot) (simp_all add: reset_count_def)
      then show ?thesis
        using sig free
        by (simp add: j interrupted_def run_steps_def install_stores_def
            publish_signum_def reset_count_def)
    next
      assume j: "j = 2"
      let ?st2 = "publish_signum k sig (reset_count k st1)"
      have pub: "signum (signals ?st2 k) = sig" "count (signals ?st2 k) = 0"
        by (simp_all add: publish_signum_def reset_count_def)
      have same: "\<And>n. count (signals (deliver n sig ?st2) k) = of_nat n"
        using deliver_count [OF k pub(1)] pub(2) by simp
      have other: "\<And>s n. s \<noteq> sig \<Longrightarrow> signals (deliver n s ?st2) k = signals ?st2 k"
        using pub(1) k by (intro deliver_other_slot) simp_all
      show ?thesis
        using pub same other
        by (auto simp: j interrupted_def run_steps_def install_stores_def)
    qed
  qed
  from al k' st' k fin ord
  show "\<exists>k st1. k' = int k \<and> k < NUM_SIGNALS \<and>
        install_alloc sig (log_event MutexLock st) = (Some k, st1) \<and>
        st' = log_event MutexUnlock (run_steps (install_stores k sig) st1) \<and>
        count (signals st' k) = 0 \<and> signum (signals st' k) = sig \<and>
        (sig \<noteq> 0 \<longrightarrow>
           (\<forall>j\<le>length (install_stores k sig).
              (signum (signals (run_steps (take j (install_stores k sig)) st1) k) = sig \<longrightarrow>
                 count (signals (run_steps (take j (install_stores k sig)) st1) k) = 0) \<and>
              (\<forall>s n. s \<noteq> 0 \<longrightarrow>
                 count (signals (interrupted j (deliver n s) (install_stores k sig) st1) k) =
                   (if j = length (install_stores k sig) \<and> s = sig then of_nat n else 0))))"
    by blast
qed

theorem install_resets_count_witness:
  "count (signals stale_state 0) = 5 \<and>
   (\<exists>st' st1. Mono_Unix_UnixSignal_install 0 10 stale_state = (Slot 0, st') \<and>
      count (signals st' 0) = 0 \<and> signum (signals st' 0) = 10 \<and>
      install_alloc 10 (log_event MutexLock stale_state) = (Some 0, st1) \<and>
      count (signals (interrupted 1 (deliver 3 10) (install_stores 0 10) st1) 0) = 0 \<and>
      count (signals (interrupted 2 (deliver 3 10) (install_stores 0 10) st1) 0) = 3)"
proof -
  have f: "first_free stale_state = Some 0"
    by (simp add: first_free_Some stale_state_def fresh_simps zero_info_def NUM_SIGNALS_def)
  have c: "catchable stale_state 10"
    by (simp add: stale_state_def fresh_simps catchable_std_def)
  from install_returns [OF _ f c] obtain st' where
    i: "Mono_Unix_UnixSignal_install 0 10 stale_state = (Slot 0, st')" by auto
  from install_resets_count [of 0 10 stale_state 0 st'] i obtain st1 where
    al: "install_alloc 10 (log_event MutexLock stale_state) = (Some 0, st1)" and
    fin: "count (signals st' 0) = 0" "signum (signals st' 0) = 10" and
    ord: "\<forall>j\<le>length (install_stores 0 10).
              (\<forall>s n. s \<noteq> 0 \<longrightarrow>
                 count (signals (interrupted j (deliver n s) (install_stores 0 10) st1) 0) =
                   (if j = length (install_stores 0 10) \<and> s = 10 then of_nat n else 0))"
    by auto
  from ord have "count (signals (interrupted 1 (deliver 3 10) (install_stores 0 10) st1) 0) = 0"
    "count (signals (interrupted 2 (deliver 3 10) (install_stores 0 10) st1) 0) = 3"
    by (simp_all add: install_stores_def)
  with i al fin show ?thesis
    by (auto simp: stale_state_def fresh_simps zero_info_def)
qed

text \<open>
  C5. When a slot already holds signal \<open>sig\<close> with a recorded handler other than
  \<^verbatim>\<open>default_handler\<close>, a call of install for \<open>sig\<close> that returns a handle has called
  \<^verbatim>\<open>signal (sig, default_handler)\<close> once more, and the new slot records the handler of
  the first such slot.
\<close>

theorem install_copies_recorded_disposition:
  "sig \<noteq> 0 \<and> j < NUM_SIGNALS \<and> signum (signals st j) = sig \<and>
   handler (signals st j) \<noteq> DefaultHandler \<and>
   (\<forall>i<j. \<not> (signum (signals st i) = sig \<and> handler (signals st i) \<noteq> DefaultHandler)) \<and>
   Mono_Unix_UnixSignal_install 0 sig st = (Slot k', st') \<longrightarrow>
     handler (signals st' (nat k')) = handler (signals st j) \<and>
     have_handler (signals st' (nat k')) = 1 \<and>
     signum (signals st' (nat k')) = sig \<and>
     trace st' = trace st @ [MutexLock, Signal sig DefaultHandler, MutexUnlock] \<and>
     disposition st' = (disposition st)(sig := DefaultHandler)"
proof
  assume a: "sig \<noteq> 0 \<and> j < NUM_SIGNALS \<and> signum (signals st j) = sig \<and>
   handler (signals st j) \<noteq> DefaultHandler \<and>
   (\<forall>i<j. \<not> (signum (signals st i) = sig \<and> handler (signals st i) \<noteq> DefaultHandler)) \<and>
   Mono_Unix_UnixSignal_install 0 sig st = (Slot k', st')"
  then have fm: "first_match sig st = Some j"
    by (simp add: first_match_Some is_match_def)
  from a install_success [of sig st k' st'] obtain k where
    "k' = int k" "signals st' = (signals st)(k :=
              (signals st k)\<lparr>signum := sig, count := 0, have_handler := 1,
                 handler := (case first_match sig st of
                               None \<Rightarrow> disposition st sig
                             | Some j \<Rightarrow> handler (signals st j))\<rparr>)"
    "disposition st' = (disposition st)(sig := DefaultHandler)"
    "trace st' = trace st @ [MutexLock, Signal sig DefaultHandler, MutexUnlock]"
    by auto
  then show "handler (signals st' (nat k')) = handler (signals st j) \<and>
     have_handler (signals st' (nat k')) = 1 \<and>
     signum (signals st' (nat k')) = sig \<and>
     trace st' = trace st @ [MutexLock, Signal sig DefaultHandler, MutexUnlock] \<and>
     disposition st' = (disposition st)(sig := DefaultHandler)"
    by (simp add: fm)
qed

theorem install_copies_recorded_disposition_witness:
  "\<exists>st'. Mono_Unix_UnixSignal_install 0 10 registered_state = (Slot 1, st') \<and>
      handler (signals st' 1) = handler (signals registered_state 0) \<and>
      have_handler (signals st' 1) = 1 \<and>
      disposition st' 10 = DefaultHandler"
proof -
  have c: "catchable registered_state 10" by (simp add: registered_simps catchable_std_def)
  from install_returns [OF _ first_free_registered c] obtain st' where
    i: "Mono_Unix_UnixSignal_install 0 10 registered_state = (Slot 1, st')" by auto
  from install_copies_recorded_disposition [of 10 0 registered_state 1 st'] i
  show ?thesis by (simp add: registered_simps zero_info_def NUM_SIGNALS_def)
qed

text \<open>
  The claim as stated fails: with signal 10 registered in slot 0, a second install of
  signal 10 calls \<^verbatim>\<open>signal\<close> again.
\<close>

theorem install_calls_signal_again_counterexample:
  "signum (signals registered_state 0) = 10 \<and>
   (\<exists>st'. Mono_Unix_UnixSignal_install 0 10 registered_state = (Slot 1, st') \<and>
      trace st' = [MutexLock, Signal 10 DefaultHandler, MutexUnlock])"
proof -
  have c: "catchable registered_state 10" by (simp add: registered_simps catchable_std_def)
  from install_returns [OF _ first_free_registered c] obtain st' where
    i: "Mono_Unix_UnixSignal_install 0 10 registered_state = (Slot 1, st')" by auto
  from install_success [OF _ this] have
    "trace st' = trace registered_state @ [MutexLock, Signal 10 DefaultHandler, MutexUnlock]"
    by auto
  with i show ?thesis by (simp add: registered_simps zero_info_def)
qed

text \<open>
  C9. For a signal number other than 0, in a state where the platform's disposition of
  \<open>sig\<close> is \<^verbatim>\<open>default_handler\<close> whenever the table holds a registration of \<open>sig\<close>:
  a call of install that returns a handle, followed by uninstall of that handle, leaves
  every disposition as it was before the install. When the table held no registration
  of \<open>sig\<close>, uninstall returns 0 and the handler passed to \<^verbatim>\<open>signal\<close> by uninstall is the
  one \<^verbatim>\<open>signal\<close> returned to install.
\<close>

theorem install_uninstall_restores_disposition:
  "sig \<noteq> 0 \<and>
   ((\<exists>j<NUM_SIGNALS. signum (signals st j) = sig) \<longrightarrow> disposition st sig = DefaultHandler) \<and>
   Mono_Unix_UnixSignal_install 0 sig st = (Slot k', st1) \<longrightarrow>
     (\<exists>r st2. Mono_Unix_UnixSignal_uninstall 0 (Slot k') st1 = Inr (r, st2) \<and>
        disposition st2 = disposition st \<and>
        ((\<forall>j<NUM_SIGNALS. signum (signals st j) \<noteq> sig) \<longrightarrow>
           r = 0 \<and> handler (signals st1 (nat k')) = disposition st sig \<and>
           trace st2 = trace st @ [MutexLock, Signal sig DefaultHandler, MutexUnlock,
                                   MutexLock, Signal sig (disposition st sig), MutexUnlock]))"
proof
  assume a: "sig \<noteq> 0 \<and>
   ((\<exists>j<NUM_SIGNALS. signum (signals st j) = sig) \<longrightarrow> disposition st sig = DefaultHandler) \<and>
   Mono_Unix_UnixSignal_install 0 sig st = (Slot k', st1)"
  from a install_success [of sig st k' st1] obtain k where
    k': "k' = int k" and ff: "first_free st = Some k" and ca: "catchable st sig" and
    sg: "signals st1 = (signals st)(k :=
              (signals st k)\<lparr>signum := sig, count := 0, have_handler := 1,
                 handler := (case first_match sig st of
                               None \<Rightarrow> disposition st sig
                             | Some j \<Rightarrow> handler (signals st j))\<rparr>)" and
    di: "disposition st1 = (disposition st)(sig := DefaultHandler)" and
    ct: "catchable st1 = catchable st" and
    tr: "trace st1 = trace st @ [MutexLock, Signal sig DefaultHandler, MutexUnlock]"
    by auto
  from ff have k: "k < NUM_SIGNALS" and free: "signum (signals st k) = 0"
    by (simp_all add: first_free_Some)
  let ?st0 = "log_event MutexLock st1"
  show "\<exists>r st2. Mono_Unix_UnixSignal_uninstall 0 (Slot k') st1 = Inr (r, st2) \<and>
        disposition st2 = disposition st \<and>
        ((\<forall>j<NUM_SIGNALS. signum (signals st j) \<noteq> sig) \<longrightarrow>
           r = 0 \<and> handler (signals st1 (nat k')) = disposition st sig \<and>
           trace st2 = trace st @ [MutexLock, Signal sig DefaultHandler, MutexUnlock,
                                   MutexLock, Signal sig (disposition st sig), MutexUnlock])"
  proof (cases "\<exists>j<NUM_SIGNALS. signum (signals st j) = sig")
    case True
    then obtain j where j: "j < NUM_SIGNALS" "signum (signals st j) = sig" by auto
    with free a have jk: "j \<noteq> k" by auto
    have "signum (signals ?st0 j) = signum (signals ?st0 k)"
      using j jk by (simp add: sg)
    from uninstall_slot_shared [OF k j(1) jk this]
    have "Mono_Unix_UnixSignal_uninstall 0 (Slot k') st1 =
            Inr (-1, log_event MutexUnlock (upd_slot k (\<lambda>s. s\<lparr>signum := 0\<rparr>) ?st0))"
      using k by (simp add: k' uninstall_valid)
    moreover have "disposition st1 = disposition st"
      using a True di by auto
    ultimately show ?thesis using True by auto
  next
    case False
    then have fm: "first_match sig st = None"
      by (auto simp: first_match_None is_match_def)
    have hh: "have_handler (signals ?st0 k) \<noteq> 0" by (simp add: sg)
    have sk: "signum (signals st1 k) = sig" "handler (signals st1 k) = disposition st sig"
      by (simp_all add: sg fm)
    have sole: "\<forall>j<NUM_SIGNALS. j \<noteq> k \<longrightarrow> signum (signals ?st0 j) \<noteq> signum (signals ?st0 k)"
      using False by (simp add: sg)
    have ca': "catchable ?st0 (signum (signals ?st0 k))"
      using ca by (simp add: ct sk)
    from uninstall_slot_sole [OF k hh sole ca']
    have "\<exists>st2. Mono_Unix_UnixSignal_uninstall 0 (Slot k') st1 = Inr (0, st2) \<and>
            disposition st2 = disposition st \<and>
            trace st2 = trace st @ [MutexLock, Signal sig DefaultHandler, MutexUnlock,
                                   MutexLock, Signal sig (disposition st sig), MutexUnlock]"
      using k by (simp add: k' uninstall_valid sk di tr)
    moreover have "handler (signals st1 (nat k')) = disposition st sig"
      by (simp add: k' sg fm)
    ultimately show ?thesis by auto
  qed
qed

theorem install_uninstall_restores_disposition_witness:
  "(\<exists>st1 st2. Mono_Unix_UnixSignal_install 0 10 fresh_state = (Slot 0, st1) \<and>
      disposition st1 10 = DefaultHandler \<and>
      Mono_Unix_UnixSignal_uninstall 0 (Slot 0) st1 = Inr (0, st2) \<and>
      disposition st2 = disposition fresh_state \<and>
      trace st2 = [MutexLock, Signal 10 DefaultHandler, MutexUnlock,
                   MutexLock, Signal 10 NULL_handler, MutexUnlock]) \<and>
   (\<exists>st1 r st2. Mono_Unix_UnixSignal_install 0 10 registered_state = (Slot 1, st1) \<and>
      Mono_Unix_UnixSignal_uninstall 0 (Slot 1) st1 = Inr (r, st2) \<and>
      disposition st2 = disposition registered_state)"
proof -
  have c: "catchable fresh_state 10" by (simp add: fresh_simps catchable_std_def)
  from install_returns [OF _ first_free_fresh c] obtain st1 where
    i: "Mono_Unix_UnixSignal_install 0 10 fresh_state = (Slot 0, st1)" by auto
  from install_success [OF _ i] have d: "disposition st1 10 = DefaultHandler" by auto
  from install_uninstall_restores_disposition [of 10 fresh_state 0 st1] i d
  have alone: "\<exists>st1 st2. Mono_Unix_UnixSignal_install 0 10 fresh_state = (Slot 0, st1) \<and>
      disposition st1 10 = DefaultHandler \<and>
      Mono_Unix_UnixSignal_uninstall 0 (Slot 0) st1 = Inr (0, st2) \<and>
      disposition st2 = disposition fresh_state \<and>
      trace st2 = [MutexLock, Signal 10 DefaultHandler, MutexUnlock,
                   MutexLock, Signal 10 NULL_handler, MutexUnlock]"
    by (auto simp: fresh_simps zero_info_def)
  have c': "catchable registered_state 10" by (simp add: registered_simps catchable_std_def)
  from install_returns [OF _ first_free_registered c'] obtain st1' where
    i': "Mono_Unix_UnixSignal_install 0 10 registered_state = (Slot 1, st1')" by auto
  from install_uninstall_restores_disposition [of 10 registered_state 1 st1'] i'
  have shared: "\<exists>st1 r st2. Mono_Unix_UnixSignal_install 0 10 registered_state = (Slot 1, st1) \<and>
      Mono_Unix_UnixSignal_uninstall 0 (Slot 1) st1 = Inr (r, st2) \<and>
      disposition st2 = disposition registered_state"
    by (auto simp: registered_simps)
  from alone shared show ?thesis by blast
qed

section \<open>WaitAny\<close>

lemma quiet_simps [simp]:
  "quiet []"
  "quiet (e # es) = (e \<noteq> MutexLock \<and> e \<noteq> MutexUnlock \<and> quiet es)"
  "quiet (es @ es') = (quiet es \<and> quiet es')"
  "quiet (replicate n Pipe)"
  "quiet (replicate n (select_event m fds t))"
  "quiet (map Read xs)"
  "quiet (map Close xs)"
  by (auto simp: quiet_def select_event_def)

lemma has_select_simps [simp]:
  "\<not> has_select []"
  "has_select (select_event m fds t # es)"
  "has_select (es @ es') = (has_select es \<or> has_select es')"
  by (auto simp: has_select_def select_event_def)

lemma read_fd_of_log [simp]: "read_fd_of (log_event e st) = read_fd_of st"
  by (rule ext) (simp add: read_fd_of_def split: option.splits)

lemma read_fd_of_trace [simp]: "read_fd_of (st\<lparr>trace := tr\<rparr>) = read_fd_of st"
  by (rule ext) (simp add: read_fd_of_def split: option.splits)

lemma read_fd_of_errno [simp]: "read_fd_of (st\<lparr>errno := e\<rparr>) = read_fd_of st"
  by (rule ext) (simp add: read_fd_of_def split: option.splits)

lemma setup_trace:
  "setup_pipes_from pp i ps r fds m st = Inr (r', fds', m', st') \<Longrightarrow>
   \<exists>n. trace st' = trace st @ replicate n Pipe"
proof (induction ps arbitrary: i r fds m st)
  case Nil
  then show ?case by simp
next
  case (Cons p ps)
  show ?case
  proof (cases "pp i")
    case (PipeFails e)
    with Cons.prems have "trace st' = trace st @ replicate 1 Pipe" by auto
    then show ?thesis by blast
  next
    case (PipeOk rfd wfd)
    with Cons.prems obtain k where k: "deref p = Some k"
      by (cases "deref p") auto
    from Cons.prems PipeOk k Cons.IH [of "Suc i" 0 "insert rfd fds" "if rfd > m then rfd else m"
        "upd_slot k (\<lambda>s. s\<lparr>read_fd := rfd, write_fd := wfd\<rparr>) (os_pipe rfd wfd st)"]
    obtain n where "trace st' = trace st @ replicate (Suc n) Pipe" by auto
    then show ?thesis by blast
  qed
qed

lemma teardown_trace:
  "teardown_pipes ps st = Inr st' \<Longrightarrow> \<exists>cs. trace st' = trace st @ map Close cs"
proof (induction ps arbitrary: st)
  case Nil
  then show ?case by simp
next
  case (Cons p ps)
  from Cons.prems obtain k where k: "deref p = Some k"
    by (cases "deref p") auto
  define st1 where "st1 = (if read_fd (signals st k) \<noteq> 0
                     then log_event (Close (read_fd (signals st k))) st else st)"
  define st2 where "st2 = (if write_fd (signals st1 k) \<noteq> 0
                     then log_event (Close (write_fd (signals st1 k))) st1 else st1)"
  define st3 where "st3 = upd_slot k (\<lambda>s. s\<lparr>read_fd := 0, write_fd := 0\<rparr>) st2"
  have "teardown_pipes (p # ps) st = teardown_pipes ps st3"
    by (simp add: k st1_def st2_def st3_def Let_def)
  with Cons.prems have "teardown_pipes ps st3 = Inr st'" by simp
  from Cons.IH [OF this] obtain cs where cs: "trace st' = trace st3 @ map Close cs" by auto
  have "\<exists>ds. trace st3 = trace st @ map Close ds"
  proof -
    have "trace st3 = trace st @ map Close
            ((if read_fd (signals st k) \<noteq> 0 then [read_fd (signals st k)] else []) @
             (if write_fd (signals st k) \<noteq> 0 then [write_fd (signals st k)] else []))"
      by (simp add: st1_def st2_def st3_def)
    then show ?thesis by blast
  qed
  then obtain ds where "trace st3 = trace st @ map Close ds" by auto
  with cs have "trace st' = trace st @ map Close (ds @ cs)" by simp
  then show ?case by blast
qed

lemma select_trace:
  "select_loop reps m fds t st = Some (r, fds', st') \<Longrightarrow>
   \<exists>n. trace st' = trace st @ replicate (Suc n) (select_event m fds t)"
proof (induction reps arbitrary: st)
  case Nil
  then show ?case by simp
next
  case (Cons rep reps)
  let ?st0 = "log_event (select_event m fds t) st"
  obtain r1 f1 st1 where o: "os_select rep fds ?st0 = (r1, f1, st1)"
    by (cases "os_select rep fds ?st0") auto
  then have tr1: "trace st1 = trace st @ [select_event m fds t]"
    by (auto simp: os_select_def split: select_reply.splits)
  show ?case
  proof (cases "r1 = -1 \<and> errno st1 = EINTR")
    case True
    then have "f1 = fds" using o by (auto simp: os_select_def split: select_reply.splits)
    with True Cons.prems o have "select_loop reps m fds t st1 = Some (r, fds', st')"
      by (simp add: Let_def select_event_def)
    from Cons.IH [OF this] obtain n where
      "trace st' = trace st1 @ replicate (Suc n) (select_event m fds t)" by auto
    with tr1 have "trace st' = trace st @ replicate (Suc (Suc n)) (select_event m fds t)"
      by simp
    then show ?thesis by blast
  next
    case False
    with Cons.prems o have "st' = st1" by (auto simp: Let_def select_event_def)
    with tr1 have "trace st' = trace st @ replicate (Suc 0) (select_event m fds t)" by simp
    then show ?thesis by blast
  qed
qed


lemma scan_trace:
  "scan_ready i ps fds idx st = Inr (idx', st') \<Longrightarrow> \<exists>rs. trace st' = trace st @ map Read rs"
proof (induction ps arbitrary: i idx st)
  case Nil
  then show ?case by simp
next
  case (Cons p ps)
  from Cons.prems obtain k where k: "deref p = Some k"
    by (cases "deref p") auto
  show ?case
  proof (cases "read_fd (signals st k) \<in> fds")
    case True
    with Cons.prems k Cons.IH [of "Suc i" "if idx = -1 then int i else idx"
        "log_event (Read (read_fd (signals st k))) st"]
    obtain rs where "trace st' = trace st @ map Read (read_fd (signals st k) # rs)" by auto
    then show ?thesis by blast
  next
    case False
    with Cons.prems k Cons.IH [of "Suc i" idx st] show ?thesis by auto
  qed
qed

lemma wait_for_any_trace:
  assumes "wait_for_any reps sigs m fds t st = Inr (r, st')"
  shows "\<exists>es. trace st' = trace st @ es \<and> quiet es \<and> has_select es"
proof -
  from assms obtain r1 f1 st1 where s: "select_loop reps m fds t st = Some (r1, f1, st1)"
    by (auto simp: wait_for_any_def split: option.splits)
  from select_trace [OF s] obtain n where
    es: "trace st1 = trace st @ replicate (Suc n) (select_event m fds t)" by auto
  show ?thesis
  proof (cases "r1 > 0")
    case True
    with assms s have "scan_ready 0 sigs f1 (-1) st1 = Inr (r, st')"
      by (simp add: wait_for_any_def)
    from scan_trace [OF this] obtain rs where "trace st' = trace st1 @ map Read rs" by auto
    with es have "trace st' = trace st @ (replicate (Suc n) (select_event m fds t) @ map Read rs)"
      by simp
    moreover have "quiet (replicate (Suc n) (select_event m fds t) @ map Read rs)"
      unfolding quiet_simps(3) by (simp only: quiet_simps)
    moreover have "has_select (replicate (Suc n) (select_event m fds t) @ map Read rs)"
      by simp
    ultimately show ?thesis by blast
  next
    case False
    with assms s have "st' = st1" by (auto simp: wait_for_any_def split: if_splits)
    with es have "trace st' = trace st @ replicate (Suc n) (select_event m fds t)" by simp
    moreover have "quiet (replicate (Suc n) (select_event m fds t))"
      by (simp only: quiet_simps)
    moreover have "has_select (replicate (Suc n) (select_event m fds t))" by simp
    ultimately show ?thesis by blast
  qed
qed

lemma deref_inj: "deref p \<noteq> None \<Longrightarrow> deref p = deref q \<Longrightarrow> p = q"
  by (cases p; cases q) (auto split: if_splits)

lemma read_fd_of_cong: "signals st' = signals st \<Longrightarrow> read_fd_of st' = read_fd_of st"
  by (rule ext) (simp add: read_fd_of_def split: option.splits)

lemma armed_fd_notin: "q \<notin> set ps \<Longrightarrow> armed_fd f i ps q d = d"
  by (induction ps arbitrary: i d) auto

lemma armed_fd_default: "q \<in> set ps \<Longrightarrow> armed_fd f i ps q d = armed_fd f i ps q d'"
proof (induction ps arbitrary: i d d')
  case Nil
  then show ?case by simp
next
  case (Cons p ps)
  show ?case
  proof (cases "q \<in> set ps")
    case True
    from Cons.IH [OF True] show ?thesis by simp
  next
    case False
    with Cons.prems have "p = q" by simp
    with False show ?thesis by (simp add: armed_fd_notin)
  qed
qed



lemma read_fd_of_armed:
  assumes "deref p = Some k" "deref q \<noteq> None"
  shows "read_fd_of (upd_slot k (\<lambda>s. s\<lparr>read_fd := a, write_fd := b\<rparr>) st) q =
           (if p = q then a else read_fd_of st q)"
proof (cases "p = q")
  case True
  with assms show ?thesis by (simp add: read_fd_of_def)
next
  case False
  from assms obtain k' where k': "deref q = Some k'" by auto
  have "k' \<noteq> k"
  proof
    assume "k' = k"
    with assms k' have "deref q = deref p" by simp
    from deref_inj [OF assms(2) this] False show False by simp
  qed
  with False k' show ?thesis by (simp add: read_fd_of_def)
qed

lemma setup_ok:
  assumes "\<forall>p\<in>set ps. deref p \<noteq> None"
    and "\<forall>n<length ps. pp (i + n) = PipeOk (rf (i + n)) (wr (i + n))"
  shows "\<exists>fds' m' st'.
           setup_pipes_from pp i ps r fds m st = Inr ((if ps = [] then r else 0), fds', m', st') \<and>
           (\<forall>q. deref q \<noteq> None \<longrightarrow> read_fd_of st' q = armed_fd rf i ps q (read_fd_of st q))"
  using assms
proof (induction ps arbitrary: i r fds m st)
  case Nil
  then show ?case by simp
next
  case (Cons p ps)
  from Cons.prems(1) obtain k where k: "deref p = Some k" by auto
  from Cons.prems(2) have p0: "pp i = PipeOk (rf i) (wr i)" by force
  have v: "\<forall>p\<in>set ps. deref p \<noteq> None" using Cons.prems(1) by simp
  have pipes: "\<forall>n<length ps. pp (Suc i + n) = PipeOk (rf (Suc i + n)) (wr (Suc i + n))"
    using Cons.prems(2) by force
  let ?st1 = "upd_slot k (\<lambda>s. s\<lparr>read_fd := rf i, write_fd := wr i\<rparr>) (os_pipe (rf i) (wr i) st)"
  from Cons.IH [OF v pipes, of 0 "insert (rf i) fds" "if rf i > m then rf i else m" ?st1]
  obtain fds' m' st' where
    r: "setup_pipes_from pp (Suc i) ps 0 (insert (rf i) fds) (if rf i > m then rf i else m) ?st1 =
          Inr ((if ps = [] then 0 else 0), fds', m', st')" and
    o: "\<forall>q. deref q \<noteq> None \<longrightarrow> read_fd_of st' q = armed_fd rf (Suc i) ps q (read_fd_of ?st1 q)"
    by blast
  have eq: "setup_pipes_from pp i (p # ps) r fds m st = Inr (0, fds', m', st')"
    using r by (simp add: p0 k)
  have pipe_same: "read_fd_of (os_pipe (rf i) (wr i) st) = read_fd_of st"
    by (rule read_fd_of_cong) simp
  have "\<forall>q. deref q \<noteq> None \<longrightarrow> read_fd_of st' q = armed_fd rf i (p # ps) q (read_fd_of st q)"
  proof (intro allI impI)
    fix q assume q: "deref q \<noteq> None"
    from o q have "read_fd_of st' q = armed_fd rf (Suc i) ps q (read_fd_of ?st1 q)" by simp
    also have "read_fd_of ?st1 q = (if p = q then rf i else read_fd_of st q)"
      using read_fd_of_armed [OF k q, where a = "rf i" and b = "wr i"
          and st = "os_pipe (rf i) (wr i) st"]
      by (simp add: pipe_same)
    finally show "read_fd_of st' q = armed_fd rf i (p # ps) q (read_fd_of st q)" by simp
  qed
  with eq show ?case by auto
qed

lemma setup_result_frame:
  "setup_pipes_from pp i ps r fds m st = Inr (r', fds', m', st') \<Longrightarrow>
   nonblock st' \<subseteq> nonblock st \<and>
   (\<forall>k. Some k \<notin> deref ` set ps \<longrightarrow> signals st' k = signals st k)"
proof (induction ps arbitrary: i r fds m st)
  case Nil
  then show ?case by simp
next
  case (Cons p ps)
  show ?case
  proof (cases "pp i")
    case (PipeFails e)
    with Cons.prems show ?thesis by auto
  next
    case (PipeOk rfd wfd)
    with Cons.prems obtain k where k: "deref p = Some k"
      by (cases "deref p") auto
    let ?st1 = "upd_slot k (\<lambda>s. s\<lparr>read_fd := rfd, write_fd := wfd\<rparr>) (os_pipe rfd wfd st)"
    from Cons.prems PipeOk k have
      "setup_pipes_from pp (Suc i) ps 0 (insert rfd fds) (if rfd > m then rfd else m) ?st1 =
         Inr (r', fds', m', st')" by simp
    from Cons.IH [OF this] k show ?thesis by auto
  qed
qed

lemma setup_result_blocking:
  "setup_pipes_from pp i ps r fds m st = Inr (0, fds', m', st') \<Longrightarrow>
   q \<in> set ps \<Longrightarrow> deref q = Some a \<Longrightarrow>
   write_fd (signals st' a) \<notin> nonblock st' \<and> read_fd (signals st' a) \<notin> nonblock st'"
proof (induction ps arbitrary: i r fds m st)
  case Nil
  then show ?case by simp
next
  case (Cons p ps)
  show ?case
  proof (cases "pp i")
    case (PipeFails e)
    with Cons.prems show ?thesis by auto
  next
    case (PipeOk rfd wfd)
    with Cons.prems obtain k where k: "deref p = Some k"
      by (cases "deref p") auto
    let ?st1 = "upd_slot k (\<lambda>s. s\<lparr>read_fd := rfd, write_fd := wfd\<rparr>) (os_pipe rfd wfd st)"
    from Cons.prems PipeOk k have rec:
      "setup_pipes_from pp (Suc i) ps 0 (insert rfd fds) (if rfd > m then rfd else m) ?st1 =
         Inr (0, fds', m', st')" by simp
    show ?thesis
    proof (cases "q \<in> set ps")
      case True
      from Cons.IH [OF rec True Cons.prems(3)] show ?thesis .
    next
      case False
      with Cons.prems have qp: "q = p" by simp
      with k Cons.prems have a: "a = k" by simp
      have "Some k \<notin> deref ` set ps"
      proof
        assume "Some k \<in> deref ` set ps"
        then obtain q' where q': "q' \<in> set ps" "deref q' = Some k" by auto
        with k have "deref p = deref q'" by simp
        from deref_inj [OF _ this] k have "p = q'" by simp
        with q' False qp show False by simp
      qed
      with setup_result_frame [OF rec] have
        "signals st' k = signals ?st1 k" "nonblock st' \<subseteq> nonblock ?st1" by auto
      then show ?thesis by (auto simp: a)
    qed
  qed
qed

lemma select_loop_retry:
  "select_loop (replicate k (SelectFails EINTR) @ reps) m fds t st =
     select_loop reps m fds t
       (if k = 0 then st
        else st\<lparr>trace := trace st @ replicate k (select_event m fds t), errno := EINTR\<rparr>)"
proof (induction k arbitrary: st)
  case 0
  then show ?case by simp
next
  case (Suc k)
  let ?st1 = "(log_event (select_event m fds t) st)\<lparr>errno := EINTR\<rparr>"
  have "select_loop (replicate (Suc k) (SelectFails EINTR) @ reps) m fds t st =
        select_loop (replicate k (SelectFails EINTR) @ reps) m fds t ?st1"
    by (simp add: os_select_def select_event_def)
  also have "\<dots> = select_loop reps m fds t
       (if k = 0 then ?st1
        else ?st1\<lparr>trace := trace ?st1 @ replicate k (select_event m fds t), errno := EINTR\<rparr>)"
    by (rule Suc.IH)
  also have "(if k = 0 then ?st1
        else ?st1\<lparr>trace := trace ?st1 @ replicate k (select_event m fds t), errno := EINTR\<rparr>) =
     st\<lparr>trace := trace st @ replicate (Suc k) (select_event m fds t), errno := EINTR\<rparr>"
    by (simp add: log_event_def replicate_app_Cons_same)
  finally show ?case by simp
qed

lemma select_loop_returns:
  "\<exists>st'. select_loop (replicate k (SelectFails EINTR) @ SelectReturns n ready # rest) m fds t st =
            Some (int n, ready, st') \<and> signals st' = signals st \<and>
          trace st' = trace st @ replicate (Suc k) (select_event m fds t) \<and>
          disposition st' = disposition st"
  by (simp add: select_loop_retry os_select_def select_event_def replicate_app_Cons_same)

lemma teardown_ok:
  assumes "\<forall>p\<in>set ps. deref p \<noteq> None"
  shows "\<exists>st'. teardown_pipes ps st = Inr st'"
  using assms
proof (induction ps arbitrary: st)
  case Nil
  then show ?case by simp
next
  case (Cons p ps)
  then obtain k where k: "deref p = Some k" by auto
  from Cons.prems have v: "\<forall>p\<in>set ps. deref p \<noteq> None" by simp
  show ?case using Cons.IH [OF v] by (simp add: k Let_def)
qed

lemma WaitAny_trace:
  assumes "lock_result env = 0"
    and "Mono_Unix_UnixSignal_WaitAny env sigs timeout st = Inr (r, st')"
  shows "\<exists>mid. trace st' = trace st @ MutexLock # mid @ [MutexUnlock] \<and> quiet mid \<and>
           ((\<exists>fds m st1. setup_pipes env sigs {} 0 (log_event MutexLock st) = Inr (0, fds, m, st1))
              \<longrightarrow> has_select mid)"
proof -
  let ?st0 = "log_event MutexLock st"
  from assms obtain r0 fds m st1 where
    su: "setup_pipes env sigs {} 0 ?st0 = Inr (r0, fds, m, st1)"
    by (auto simp: Mono_Unix_UnixSignal_WaitAny_def split: sum.splits)
  from setup_trace [OF su [unfolded setup_pipes_def]] obtain n where
    ps: "trace st1 = trace ?st0 @ replicate n Pipe" by auto
  let ?w = "if r0 = 0 then wait_for_any (selects env) sigs m fds timeout st1 else Inr (r0, st1)"
  from assms su obtain st2 where w: "?w = Inr (r, st2)"
    by (auto simp: Mono_Unix_UnixSignal_WaitAny_def split: sum.splits)
  from assms su w obtain st3 where td: "teardown_pipes sigs st2 = Inr st3"
    and st': "st' = log_event MutexUnlock st3"
    by (auto simp: Mono_Unix_UnixSignal_WaitAny_def split: sum.splits)
  from teardown_trace [OF td] obtain cs where cs: "trace st3 = trace st2 @ map Close cs" by auto
  have "\<exists>ws. trace st2 = trace st1 @ ws \<and> quiet ws \<and> (r0 = 0 \<longrightarrow> has_select ws)"
  proof (cases "r0 = 0")
    case True
    with w have "wait_for_any (selects env) sigs m fds timeout st1 = Inr (r, st2)" by simp
    from wait_for_any_trace [OF this] show ?thesis by blast
  next
    case False
    with w have "trace st2 = trace st1 @ []" by auto
    with False show ?thesis by (intro exI [of _ "[]"]) simp
  qed
  then obtain ws where ws: "trace st2 = trace st1 @ ws" "quiet ws"
    "r0 = 0 \<longrightarrow> has_select ws" by blast
  let ?mid = "replicate n Pipe @ ws @ map Close cs"
  have "trace st' = trace st @ MutexLock # ?mid @ [MutexUnlock]"
    by (simp add: st' cs ws ps)
  moreover have "quiet ?mid" using ws(2) by simp
  moreover have "(\<exists>fds m st1. setup_pipes env sigs {} 0 ?st0 = Inr (0, fds, m, st1))
              \<longrightarrow> has_select ?mid"
    using su ws(3) by auto
  ultimately show ?thesis by blast
qed

lemma WaitAny_example:
  "\<exists>st'. Mono_Unix_UnixSignal_WaitAny
       \<lparr>lock_result = 0, r_uninit = 0, pipes = (\<lambda>i. PipeOk 3 4), selects = [SelectReturns 0 {}]\<rparr>
       [Slot 0] 50 registered_state = Inr (50, st') \<and>
     trace st' = [MutexLock, Pipe, Select 4 {3} (Some (0, 50000)), Close 3, Close 4, MutexUnlock]"
  by (simp add: Mono_Unix_UnixSignal_WaitAny_def setup_pipes_def wait_for_any_def os_select_def
      NUM_SIGNALS_def registered_state_def fresh_state_def initial_state_def zero_info_def
      signed_divide_int_def signed_modulo_int_def Let_def)

lemma quiet_writes: "quiet (map (\<lambda>j. Write (f j) b) xs)"
  by (auto simp: quiet_def)

lemma WaitAny_reaches_wait:
  assumes "lock_result env = 0" "sigs \<noteq> []" "\<forall>p\<in>set sigs. deref p \<noteq> None"
    and "\<forall>i<length sigs. pipes env i = PipeOk (rf i) (wr i)"
  shows "\<exists>fds m st1 n.
           setup_pipes env sigs {} 0 (log_event MutexLock st) = Inr (0, fds, m, st1) \<and>
           trace st1 = trace st @ MutexLock # replicate n Pipe \<and>
           (\<forall>i<length sigs. read_fd_of st1 (sigs ! i) = fd_at rf sigs i) \<and>
           Mono_Unix_UnixSignal_WaitAny env sigs timeout st =
             (case wait_for_any (selects env) sigs m fds timeout st1 of
                Inl f \<Rightarrow> Inl f
              | Inr (r', st2) \<Rightarrow>
                  (case teardown_pipes sigs st2 of
                     Inl f \<Rightarrow> Inl f
                   | Inr st3 \<Rightarrow> Inr (r', log_event MutexUnlock st3)))"
proof -
  let ?st0 = "log_event MutexLock st"
  have p: "\<forall>n<length sigs. pipes env (0 + n) = PipeOk (rf (0 + n)) (wr (0 + n))"
    using assms(4) by simp
  from setup_ok [OF assms(3) p, of "r_uninit env" "{}" 0 ?st0] assms(2)
  obtain fds m st1 where
    su: "setup_pipes env sigs {} 0 ?st0 = Inr (0, fds, m, st1)" and
    a: "\<forall>q. deref q \<noteq> None \<longrightarrow> read_fd_of st1 q = armed_fd rf 0 sigs q (read_fd_of ?st0 q)"
    by (auto simp: setup_pipes_def)
  have d: "\<forall>i<length sigs. read_fd_of st1 (sigs ! i) = fd_at rf sigs i"
  proof (intro allI impI)
    fix i assume i: "i < length sigs"
    then have m: "sigs ! i \<in> set sigs" by simp
    with assms(3) a have "read_fd_of st1 (sigs ! i) =
        armed_fd rf 0 sigs (sigs ! i) (read_fd_of ?st0 (sigs ! i))" by simp
    also have "\<dots> = fd_at rf sigs i"
      unfolding fd_at_def using m by (rule armed_fd_default)
    finally show "read_fd_of st1 (sigs ! i) = fd_at rf sigs i" .
  qed
  from setup_trace [OF su [unfolded setup_pipes_def]] obtain n where
    "trace st1 = trace ?st0 @ replicate n Pipe" by auto
  then have "trace st1 = trace st @ MutexLock # replicate n Pipe" by simp
  with su d assms(1) show ?thesis
    by (auto simp: Mono_Unix_UnixSignal_WaitAny_def)
qed


lemma distinct_deref:
  assumes "distinct ps" "\<forall>p\<in>set ps. deref p \<noteq> None"
  shows "distinct (map deref ps)"
proof -
  have "inj_on deref (set ps)"
  proof (rule inj_onI)
    fix p q assume "p \<in> set ps" "q \<in> set ps" "deref p = deref q"
    with assms(2) show "p = q" by (blast intro: deref_inj)
  qed
  with assms(1) show ?thesis by (simp add: distinct_map)
qed



text \<open>
  C1. A call of WaitAny that takes the lock and returns makes its platform calls in this
  order: one lock, then every other call of the function (the pipes, every call of
  \<^verbatim>\<open>select\<close>, the reads and the closes), then one unlock. No lock or unlock occurs in
  between, so every call of \<^verbatim>\<open>select\<close> is made with the lock held; and whenever
  \<^verbatim>\<open>setup_pipes\<close> returned 0 there is such a call. The dispatch handler itself never
  locks or unlocks.
\<close>

theorem WaitAny_holds_lock_across_wait:
  "(lock_result env = 0 \<and> Mono_Unix_UnixSignal_WaitAny env sigs timeout st = Inr (r, st') \<longrightarrow>
     (\<exists>mid. trace st' = trace st @ MutexLock # mid @ [MutexUnlock] \<and>
        MutexLock \<notin> set mid \<and> MutexUnlock \<notin> set mid \<and>
        ((\<exists>fds m st1. setup_pipes env sigs {} 0 (log_event MutexLock st) = Inr (0, fds, m, st1))
           \<longrightarrow> (\<exists>n f tv. Select n f tv \<in> set mid)))) \<and>
   (\<exists>ws. trace (default_handler s st) = trace st @ ws \<and>
      MutexLock \<notin> set ws \<and> MutexUnlock \<notin> set ws)"
proof (intro conjI impI)
  assume "lock_result env = 0 \<and> Mono_Unix_UnixSignal_WaitAny env sigs timeout st = Inr (r, st')"
  then show "\<exists>mid. trace st' = trace st @ MutexLock # mid @ [MutexUnlock] \<and>
        MutexLock \<notin> set mid \<and> MutexUnlock \<notin> set mid \<and>
        ((\<exists>fds m st1. setup_pipes env sigs {} 0 (log_event MutexLock st) = Inr (0, fds, m, st1))
           \<longrightarrow> (\<exists>n f tv. Select n f tv \<in> set mid))"
    using WaitAny_trace [of env sigs timeout st r st']
    unfolding quiet_def has_select_def by blast
next
  show "\<exists>ws. trace (default_handler s st) = trace st @ ws \<and>
      MutexLock \<notin> set ws \<and> MutexUnlock \<notin> set ws"
    using quiet_writes [of "\<lambda>i. write_fd (signals st i)" "of_int s"]
    unfolding default_handler_def dh_from_trace quiet_def by blast
qed

theorem WaitAny_holds_lock_across_wait_witness:
  "\<exists>st' mid. Mono_Unix_UnixSignal_WaitAny
       \<lparr>lock_result = 0, r_uninit = 0, pipes = (\<lambda>i. PipeOk 3 4), selects = [SelectReturns 0 {}]\<rparr>
       [Slot 0] 50 registered_state = Inr (50, st') \<and>
     trace st' = trace registered_state @ MutexLock # mid @ [MutexUnlock] \<and>
     MutexLock \<notin> set mid \<and> MutexUnlock \<notin> set mid \<and>
     (\<exists>n f tv. Select n f tv \<in> set mid)"
proof -
  let ?env = "\<lparr>lock_result = 0, r_uninit = 0, pipes = (\<lambda>i. PipeOk 3 4),
               selects = [SelectReturns 0 {}]\<rparr>"
  from WaitAny_example obtain st' where
    w: "Mono_Unix_UnixSignal_WaitAny ?env [Slot 0] 50 registered_state = Inr (50, st')" by blast
  have l: "lock_result ?env = 0" by simp
  have su: "\<exists>fds m st1. setup_pipes ?env [Slot 0] {} 0 (log_event MutexLock registered_state) =
              Inr (0, fds, m, st1)"
    by (simp add: setup_pipes_def NUM_SIGNALS_def)
  from WaitAny_holds_lock_across_wait [of ?env "[Slot 0]" 50 registered_state 50 st'] w l su
  show ?thesis by blast
qed

text \<open>
  The claim as stated fails: in a wait on one registration that times out after 50 ms,
  \<^verbatim>\<open>select\<close> is called after the lock and before the unlock.
\<close>

theorem WaitAny_select_under_lock_counterexample:
  "\<exists>st'. Mono_Unix_UnixSignal_WaitAny
       \<lparr>lock_result = 0, r_uninit = 0, pipes = (\<lambda>i. PipeOk 3 4), selects = [SelectReturns 0 {}]\<rparr>
       [Slot 0] 50 registered_state = Inr (50, st') \<and>
     trace st' = [MutexLock, Pipe, Select 4 {3} (Some (0, 50000)), Close 3, Close 4, MutexUnlock]"
  by (rule WaitAny_example)

text \<open>
  C3. When the lock is taken, every handle points into the table, every pipe is created
  and \<^verbatim>\<open>select\<close>, after any number of interruptions, returns 0, a call of WaitAny on
  a non-empty list of handles with a timeout \<open>timeout \<ge> 0\<close> returns \<open>timeout\<close> itself,
  which is not the error result -1, and which is the index of one of the handles exactly
  when \<open>timeout\<close> is less than their number.
\<close>

theorem WaitAny_timeout_returns_timeout:
  "lock_result env = 0 \<and> sigs \<noteq> [] \<and> (\<forall>p\<in>set sigs. deref p \<noteq> None) \<and>
   (\<forall>i<length sigs. pipes env i = PipeOk (rf i) (wr i)) \<and>
   selects env = replicate k (SelectFails EINTR) @ SelectReturns 0 ready # rest \<and>
   0 \<le> timeout \<longrightarrow>
     (\<exists>st'. Mono_Unix_UnixSignal_WaitAny env sigs timeout st = Inr (timeout, st')) \<and>
     timeout \<noteq> -1 \<and>
     ((\<exists>i<length sigs. int i = timeout) \<longleftrightarrow> timeout < int (length sigs))"
proof
  assume a: "lock_result env = 0 \<and> sigs \<noteq> [] \<and> (\<forall>p\<in>set sigs. deref p \<noteq> None) \<and>
   (\<forall>i<length sigs. pipes env i = PipeOk (rf i) (wr i)) \<and>
   selects env = replicate k (SelectFails EINTR) @ SelectReturns 0 ready # rest \<and>
   0 \<le> timeout"
  then have v: "\<forall>p\<in>set sigs. deref p \<noteq> None" by simp
  from a WaitAny_reaches_wait [of env sigs rf wr st timeout] obtain fds m st1 where
    w: "Mono_Unix_UnixSignal_WaitAny env sigs timeout st =
             (case wait_for_any (selects env) sigs m fds timeout st1 of
                Inl f \<Rightarrow> Inl f
              | Inr (r', st2) \<Rightarrow>
                  (case teardown_pipes sigs st2 of
                     Inl f \<Rightarrow> Inl f
                   | Inr st3 \<Rightarrow> Inr (r', log_event MutexUnlock st3)))"
    by blast
  from select_loop_returns [of k 0 ready rest m fds timeout st1] a obtain st2 where
    "select_loop (selects env) m fds timeout st1 = Some (0, ready, st2)" by auto
  then have wa: "wait_for_any (selects env) sigs m fds timeout st1 = Inr (timeout, st2)"
    by (simp add: wait_for_any_def)
  from teardown_ok [OF v, of st2] obtain st3 where "teardown_pipes sigs st2 = Inr st3" by blast
  with w wa have ret: "\<exists>st'. Mono_Unix_UnixSignal_WaitAny env sigs timeout st = Inr (timeout, st')"
    by simp
  have idx: "(\<exists>i<length sigs. int i = timeout) \<longleftrightarrow> timeout < int (length sigs)"
  proof
    assume "\<exists>i<length sigs. int i = timeout"
    then show "timeout < int (length sigs)" by auto
  next
    assume "timeout < int (length sigs)"
    moreover from a have "0 \<le> timeout" by simp
    ultimately have "nat timeout < length sigs \<and> int (nat timeout) = timeout" by linarith
    then show "\<exists>i<length sigs. int i = timeout" by blast
  qed
  from ret idx a show "(\<exists>st'. Mono_Unix_UnixSignal_WaitAny env sigs timeout st = Inr (timeout, st')) \<and>
     timeout \<noteq> -1 \<and>
     ((\<exists>i<length sigs. int i = timeout) \<longleftrightarrow> timeout < int (length sigs))"
    by simp
qed

theorem WaitAny_timeout_returns_timeout_witness:
  "\<exists>st'. Mono_Unix_UnixSignal_WaitAny
       \<lparr>lock_result = 0, r_uninit = 0, pipes = (\<lambda>i. PipeOk 3 4),
        selects = [SelectFails EINTR, SelectReturns 0 {}]\<rparr>
       [Slot 0] 50 registered_state = Inr (50, st')"
  using WaitAny_timeout_returns_timeout [of
      "\<lparr>lock_result = 0, r_uninit = 0, pipes = (\<lambda>i. PipeOk 3 4),
        selects = [SelectFails EINTR, SelectReturns 0 {}]\<rparr>"
      "[Slot 0]" "\<lambda>i. 3" "\<lambda>i. 4" 1 "{}" "[]" 50 registered_state]
  by (simp add: NUM_SIGNALS_def)

text \<open>
  The claim as stated fails: with a timeout of 0 and one handle, the value returned on
  timeout is 0, the index of that handle.
\<close>

theorem WaitAny_timeout_is_valid_index_counterexample:
  "\<exists>st'. Mono_Unix_UnixSignal_WaitAny
       \<lparr>lock_result = 0, r_uninit = 0, pipes = (\<lambda>i. PipeOk 3 4), selects = [SelectReturns 0 {}]\<rparr>
       [Slot 0] 0 registered_state = Inr (0, st') \<and>
     (0::int) < int (length [Slot 0]) \<and>
     trace st' = [MutexLock, Pipe, Select 4 {3} (Some (0, 0)), Close 3, Close 4, MutexUnlock]"
  by (simp add: Mono_Unix_UnixSignal_WaitAny_def setup_pipes_def wait_for_any_def os_select_def
      NUM_SIGNALS_def registered_state_def fresh_state_def initial_state_def zero_info_def
      signed_divide_int_def signed_modulo_int_def Let_def)

text \<open>
  C6. WaitAny on the empty list of handles, with a timeout of 50 ms: when the
  unassigned local \<^verbatim>\<open>r\<close> of \<^verbatim>\<open>setup_pipes\<close> happens to be 0, \<^verbatim>\<open>select\<close> is called
  on the empty set and the timeout value 50 is returned; when it happens to be 7, the
  value 7 is returned. In neither run is the call rejected.
\<close>

theorem WaitAny_empty_not_rejected:
  "(\<exists>st'. Mono_Unix_UnixSignal_WaitAny
       \<lparr>lock_result = 0, r_uninit = 0, pipes = (\<lambda>i. PipeOk 3 4), selects = [SelectReturns 0 {}]\<rparr>
       [] 50 fresh_state = Inr (50, st') \<and>
     trace st' = [MutexLock, Select 1 {} (Some (0, 50000)), MutexUnlock]) \<and>
   (\<exists>st'. Mono_Unix_UnixSignal_WaitAny
       \<lparr>lock_result = 0, r_uninit = 7, pipes = (\<lambda>i. PipeOk 3 4), selects = [SelectReturns 0 {}]\<rparr>
       [] 50 fresh_state = Inr (7, st') \<and>
     trace st' = [MutexLock, MutexUnlock])"
  by (simp add: Mono_Unix_UnixSignal_WaitAny_def setup_pipes_def wait_for_any_def os_select_def
      fresh_state_def initial_state_def
      signed_divide_int_def signed_modulo_int_def Let_def)




section \<open>The dispatch handler\<close>

lemma armed_by_setup:
  "\<exists>st1. setup_pipes \<lparr>lock_result = 0, r_uninit = 0, pipes = (\<lambda>i. PipeOk 3 4), selects = []\<rparr>
       [Slot 0] {} 0 registered_state = Inr (0, {3}, 3, st1) \<and>
     signals st1 = signals armed_state \<and> trace st1 = [Pipe] \<and> 4 \<notin> nonblock st1"
  by (simp add: setup_pipes_def NUM_SIGNALS_def armed_state_def registered_simps)

lemma writes_of_signals:
  assumes "signals st1 = signals armed_state"
  shows "trace (default_handler 10 st1) = trace st1 @ [Write 4 10]"
proof -
  have "trace (default_handler 10 st1) =
     trace st1 @ map (\<lambda>i. Write (write_fd (signals armed_state i)) (of_int 10))
       (filter (\<lambda>i. signum (signals armed_state i) = 10 \<and> write_fd (signals armed_state i) > 0)
          [0..<NUM_SIGNALS])"
    by (simp add: default_handler_def dh_from_trace assms)
  then show ?thesis unfolding armed_writes by (simp add: armed_simps zero_info_def)
qed

text \<open>
  C8. One delivery of signal \<open>sig\<close> adds one to the counter of every slot of the table
  whose signal number is \<open>sig\<close> and changes no other slot and no other field; it makes
  one \<^verbatim>\<open>write\<close> of one byte for each such slot whose \<^verbatim>\<open>write_fd\<close> is positive, in
  table order, and no other platform call, and it changes the flags of no descriptor.
  The descriptors a slot holds after a \<^verbatim>\<open>setup_pipes\<close> that returned 0 have
  \<^verbatim>\<open>O_NONBLOCK\<close> clear, so the write of the handler to such a slot is a blocking write.
  \<open>n\<close> deliveries to a registration add \<open>n\<close> to its counter as a 32-bit value (read
  as a signed number it is \<open>n\<close> itself when it started at 0 and \<open>n < 2^31\<close>), and
  make no platform call at all when no registration of \<open>sig\<close> has a write descriptor
  set.
\<close>

theorem default_handler_fan_out:
  "signals (default_handler sig st) j =
     (if j < NUM_SIGNALS \<and> signum (signals st j) = sig
      then (signals st j)\<lparr>count := count (signals st j) + 1\<rparr> else signals st j) \<and>
   trace (default_handler sig st) =
     trace st @ map (\<lambda>i. Write (write_fd (signals st i)) (of_int sig))
       (filter (\<lambda>i. signum (signals st i) = sig \<and> write_fd (signals st i) > 0)
          [0..<NUM_SIGNALS]) \<and>
   nonblock (default_handler sig st) = nonblock st \<and>
   (setup_pipes env sigs fds m st0 = Inr (0, fds', m', st) \<and> q \<in> set sigs \<and>
    deref q = Some a \<longrightarrow> write_fd (signals st a) \<notin> nonblock st) \<and>
   (j < NUM_SIGNALS \<and> signum (signals st j) = sig \<and>
    (\<forall>i<NUM_SIGNALS. signum (signals st i) = sig \<longrightarrow> write_fd (signals st i) \<le> 0) \<longrightarrow>
      count (signals (deliver n sig st) j) = count (signals st j) + of_nat n \<and>
      trace (deliver n sig st) = trace st \<and>
      (count (signals st j) = 0 \<and> n < 2 ^ 31 \<longrightarrow>
         sint (count (signals (deliver n sig st) j)) = int n))"
proof -
  have blocking: "setup_pipes env sigs fds m st0 = Inr (0, fds', m', st) \<and> q \<in> set sigs \<and>
    deref q = Some a \<longrightarrow> write_fd (signals st a) \<notin> nonblock st"
    using setup_result_blocking [of "pipes env" 0 sigs "r_uninit env" fds m st0 fds' m' st q a]
    by (simp add: setup_pipes_def)
  show ?thesis
    using blocking
    by (simp add: default_handler_def dh_from_signals dh_from_trace dh_from_nonblock
        deliver_count deliver_trace sint_small)
qed

theorem default_handler_fan_out_witness:
  "signum (signals registered_state 0) = 10 \<and>
   sint (count (signals (deliver 3 10 registered_state) 0)) = 3 \<and>
   trace (deliver 3 10 registered_state) = [] \<and>
   count (signals (default_handler 10 armed_state) 0) = 1 \<and>
   trace (default_handler 10 armed_state) = [Write 4 10] \<and>
   (\<exists>st1. setup_pipes \<lparr>lock_result = 0, r_uninit = 0, pipes = (\<lambda>i. PipeOk 3 4), selects = []\<rparr>
       [Slot 0] {} 0 registered_state = Inr (0, {3}, 3, st1) \<and>
      write_fd (signals st1 0) \<notin> nonblock st1)"
proof -
  have unwaited: "sint (count (signals (deliver 3 10 registered_state) 0)) = 3 \<and>
      trace (deliver 3 10 registered_state) = []"
    using default_handler_fan_out [of 10 registered_state 0 _ _ _ _ _ _ _ _ _ 3]
    by (simp add: registered_simps zero_info_def NUM_SIGNALS_def)
  have tr: "trace (default_handler 10 armed_state) =
     trace armed_state @ map (\<lambda>i. Write (write_fd (signals armed_state i)) (of_int 10))
       (filter (\<lambda>i. signum (signals armed_state i) = 10 \<and> write_fd (signals armed_state i) > 0)
          [0..<NUM_SIGNALS])"
    using default_handler_fan_out [of 10 armed_state 0] by blast
  have cn: "count (signals (default_handler 10 armed_state) 0) = 1"
    using default_handler_fan_out [of 10 armed_state 0]
    by (simp add: armed_simps zero_info_def NUM_SIGNALS_def)
  have wr: "trace (default_handler 10 armed_state) = [Write 4 10]"
    unfolding tr armed_writes by (simp add: armed_simps zero_info_def)
  let ?env = "\<lparr>lock_result = 0, r_uninit = 0, pipes = (\<lambda>i. PipeOk 3 4), selects = []\<rparr>"
  from armed_by_setup obtain st1 where
    su: "setup_pipes ?env [Slot 0] {} 0 registered_state = Inr (0, {3}, 3, st1)" by blast
  have d: "deref (Slot 0) = Some 0" by (simp add: NUM_SIGNALS_def)
  from default_handler_fan_out [where st = st1 and env = ?env and sigs = "[Slot 0]"
      and fds = "{}" and m = 0 and ?st0.0 = registered_state and fds' = "{3}" and m' = 3
      and q = "Slot 0" and a = 0] su d
  have "write_fd (signals st1 0) \<notin> nonblock st1" by simp
  with su have arm: "\<exists>st1. setup_pipes ?env [Slot 0] {} 0 registered_state =
      Inr (0, {3}, 3, st1) \<and> write_fd (signals st1 0) \<notin> nonblock st1"
    by blast
  from unwaited cn wr arm show ?thesis by (simp add: registered_simps zero_info_def)
qed

text \<open>
  The claim as stated fails in both respects. After 2147483648 deliveries to a
  registration nobody waits on, the counter, read as the C \<^verbatim>\<open>int\<close> it is, holds
  -2147483648. And the descriptor 4 that \<^verbatim>\<open>setup_pipes\<close> stores as \<^verbatim>\<open>write_fd\<close> has
  \<^verbatim>\<open>O_NONBLOCK\<close> clear when the handler writes to it.
\<close>

theorem default_handler_wraps_and_blocks_counterexample:
  "sint (count (signals (deliver 2147483648 10 registered_state) 0)) = - 2147483648 \<and>
   (\<exists>st1. setup_pipes \<lparr>lock_result = 0, r_uninit = 0, pipes = (\<lambda>i. PipeOk 3 4), selects = []\<rparr>
       [Slot 0] {} 0 registered_state = Inr (0, {3}, 3, st1) \<and>
      4 \<notin> nonblock st1 \<and>
      trace (default_handler 10 st1) = trace st1 @ [Write 4 10])"
proof -
  have "count (signals (deliver 2147483648 10 registered_state) 0) =
        count (signals registered_state 0) + of_nat 2147483648"
    by (rule deliver_count) (simp_all add: registered_simps zero_info_def NUM_SIGNALS_def)
  then have wrap: "sint (count (signals (deliver 2147483648 10 registered_state) 0)) =
      - 2147483648"
    by (simp add: registered_simps zero_info_def)
  from armed_by_setup obtain st1 where
    "setup_pipes \<lparr>lock_result = 0, r_uninit = 0, pipes = (\<lambda>i. PipeOk 3 4), selects = []\<rparr>
       [Slot 0] {} 0 registered_state = Inr (0, {3}, 3, st1)"
    "signals st1 = signals armed_state" "4 \<notin> nonblock st1"
    by blast
  with writes_of_signals [of st1] wrap show ?thesis by blast
qed

end
